theory Spec2Isabelle
  imports Main "HOL-Library.Word" "HOL-Library.Multiset"
begin

unbundle bit_operations_syntax

section \<open>Python values used by sf2-contents.py\<close>

text \<open>
  Bytes are 8-bit words, Python integers are \<open>int\<close>. A Python \<open>str\<close> is a list of
  code points; the string literals of the source are ASCII and are written as HOL strings,
  embedded by \<open>ascii\<close>. Every exception the source can raise is a value of \<open>error\<close>;
  \<open>SystemExit\<close> stands for \<open>sys.exit(1)\<close>.
\<close>

type_synonym byte = "8 word"
type_synonym pystr = "nat list"

datatype error = StructError | UnicodeDecodeError | IndexError | TypeError
  | ZeroDivisionError | SystemExit

definition ascii :: "string \<Rightarrow> pystr" where
  "ascii s = map of_char s"

text \<open>\<open>xs[i]\<close> of Python, on a list or on bytes: a negative index counts from the end.\<close>

definition py_index :: "'a list \<Rightarrow> int \<Rightarrow> error + 'a" where
  "py_index xs i =
     (if 0 \<le> i \<and> i < int (length xs) then Inr (xs ! nat i)
      else if i < 0 \<and> - int (length xs) \<le> i then Inr (xs ! nat (int (length xs) + i))
      else Inl IndexError)"

text \<open>\<open>range(a, b)\<close> of Python over integers.\<close>

definition py_range :: "int \<Rightarrow> int \<Rightarrow> int list" where
  "py_range a b = [a..b - 1]"

text \<open>\<open>s.strip(chr(0))\<close>: the null characters at both ends of the string are removed.\<close>

definition strip0 :: "pystr \<Rightarrow> pystr" where
  "strip0 s = rev (dropWhile (\<lambda>c. c = 0) (rev (dropWhile (\<lambda>c. c = 0) s)))"

text \<open>
  \<open>bytes.decode("utf-8")\<close> in strict mode: well-formed sequences only (no overlong form,
  no surrogate, nothing above U+10FFFF); anything else raises UnicodeDecodeError.
\<close>

definition cont :: "byte \<Rightarrow> bool" where
  "cont b = (0x80 \<le> b \<and> b \<le> 0xBF)"

definition cbits :: "byte \<Rightarrow> nat" where
  "cbits b = unat b mod 64"

fun utf8_decode :: "byte list \<Rightarrow> error + pystr" where
  "utf8_decode [] = Inr []"
| "utf8_decode [b0] =
     (if b0 < 0x80 then Inr [unat b0] else Inl UnicodeDecodeError)"
| "utf8_decode [b0, b1] =
     (if b0 < 0x80 then
        (case utf8_decode [b1] of Inl e \<Rightarrow> Inl e | Inr cs \<Rightarrow> Inr (unat b0 # cs))
      else if 0xC2 \<le> b0 \<and> b0 \<le> 0xDF \<and> cont b1 then
        Inr [(unat b0 mod 32) * 64 + cbits b1]
      else Inl UnicodeDecodeError)"
| "utf8_decode [b0, b1, b2] =
     (if b0 < 0x80 then
        (case utf8_decode [b1, b2] of Inl e \<Rightarrow> Inl e | Inr cs \<Rightarrow> Inr (unat b0 # cs))
      else if 0xC2 \<le> b0 \<and> b0 \<le> 0xDF \<and> cont b1 then
        (case utf8_decode [b2] of Inl e \<Rightarrow> Inl e
         | Inr cs \<Rightarrow> Inr (((unat b0 mod 32) * 64 + cbits b1) # cs))
      else if 0xE0 \<le> b0 \<and> b0 \<le> 0xEF \<and> cont b1 \<and> cont b2
              \<and> (b0 = 0xE0 \<longrightarrow> 0xA0 \<le> b1) \<and> (b0 = 0xED \<longrightarrow> b1 \<le> 0x9F) then
        Inr [((unat b0 mod 16) * 64 + cbits b1) * 64 + cbits b2]
      else Inl UnicodeDecodeError)"
| "utf8_decode (b0 # b1 # b2 # b3 # bs) =
     (if b0 < 0x80 then
        (case utf8_decode (b1 # b2 # b3 # bs) of Inl e \<Rightarrow> Inl e
         | Inr cs \<Rightarrow> Inr (unat b0 # cs))
      else if 0xC2 \<le> b0 \<and> b0 \<le> 0xDF \<and> cont b1 then
        (case utf8_decode (b2 # b3 # bs) of Inl e \<Rightarrow> Inl e
         | Inr cs \<Rightarrow> Inr (((unat b0 mod 32) * 64 + cbits b1) # cs))
      else if 0xE0 \<le> b0 \<and> b0 \<le> 0xEF \<and> cont b1 \<and> cont b2
              \<and> (b0 = 0xE0 \<longrightarrow> 0xA0 \<le> b1) \<and> (b0 = 0xED \<longrightarrow> b1 \<le> 0x9F) then
        (case utf8_decode (b3 # bs) of Inl e \<Rightarrow> Inl e
         | Inr cs \<Rightarrow> Inr ((((unat b0 mod 16) * 64 + cbits b1) * 64 + cbits b2) # cs))
      else if 0xF0 \<le> b0 \<and> b0 \<le> 0xF4 \<and> cont b1 \<and> cont b2 \<and> cont b3
              \<and> (b0 = 0xF0 \<longrightarrow> 0x90 \<le> b1) \<and> (b0 = 0xF4 \<longrightarrow> b1 \<le> 0x8F) then
        (case utf8_decode bs of Inl e \<Rightarrow> Inl e
         | Inr cs \<Rightarrow>
             Inr (((((unat b0 mod 8) * 64 + cbits b1) * 64 + cbits b2) * 64 + cbits b3) # cs))
      else Inl UnicodeDecodeError)"

text \<open>\<open>str(n)\<close> and \<open>f"{n}"\<close> for an integer: decimal digits, with a sign when negative.\<close>

definition digit_char :: "nat \<Rightarrow> char" where
  "digit_char d = char_of (48 + d)"

function digits :: "nat \<Rightarrow> string" where
  "digits n = (if n < 10 then [digit_char n] else digits (n div 10) @ [digit_char (n mod 10)])"
  by pat_completeness auto
termination
  by (relation "measure (\<lambda>n. n)") auto

definition str_int :: "int \<Rightarrow> string" where
  "str_int i = (if i < 0 then CHR ''-'' # digits (nat (- i)) else digits (nat i))"

section \<open>struct.unpack and struct.calcsize\<close>

text \<open>
  The format codes the source uses, all without alignment: \<open>Fs n\<close> is \<open>ns\<close> (n raw bytes),
  \<open>FH\<close> an unsigned 16-bit, \<open>FI\<close> an unsigned 32-bit, \<open>FB\<close> an unsigned and \<open>Fb\<close> a signed
  8-bit integer. The byte order is little-endian: explicitly (\<open><\<close>) in the record formats,
  and as the native order of the machine in the chunk headers (\<open>"II"\<close>), whose identifiers
  \<open>chunk_id\<close> builds in little-endian order.
\<close>

datatype fmt = Fs nat | FH | FI | FB | Fb

datatype field = Bytes "byte list" | Num int

fun fmt_size :: "fmt \<Rightarrow> nat" where
  "fmt_size (Fs n) = n"
| "fmt_size FH = 2"
| "fmt_size FI = 4"
| "fmt_size FB = 1"
| "fmt_size Fb = 1"

definition calcsize :: "fmt list \<Rightarrow> nat" where
  "calcsize fs = sum_list (map fmt_size fs)"

fun le_uint :: "byte list \<Rightarrow> int" where
  "le_uint [] = 0"
| "le_uint (b # bs) = uint b + 256 * le_uint bs"

fun unpack_field :: "fmt \<Rightarrow> byte list \<Rightarrow> field" where
  "unpack_field (Fs n) bs = Bytes bs"
| "unpack_field Fb bs = Num (if le_uint bs < 128 then le_uint bs else le_uint bs - 256)"
| "unpack_field f bs = Num (le_uint bs)"

fun unpack_fields :: "fmt list \<Rightarrow> byte list \<Rightarrow> field list" where
  "unpack_fields [] bs = []"
| "unpack_fields (f # fs) bs =
     unpack_field f (take (fmt_size f) bs) # unpack_fields fs (drop (fmt_size f) bs)"

definition struct_unpack :: "fmt list \<Rightarrow> byte list \<Rightarrow> error + field list" where
  "struct_unpack fs bs =
     (if length bs \<noteq> calcsize fs then Inl StructError else Inr (unpack_fields fs bs))"

section \<open>The record classes\<close>

text \<open>
  A record class is its \<open>format\<close> and its constructor, applied to the unpacked fields
  (\<open>rec_class(*fields)\<close>): a wrong number of fields is a TypeError, and the three classes
  with a name decode it as UTF-8 and strip its null characters.
\<close>

record 'r rec_class =
  format :: "fmt list"
  init :: "field list \<Rightarrow> error + 'r"

record PHDRRecord =
  preset_name :: pystr
  preset :: int
  bank :: int
  bag_ndx :: int
  library :: int
  genre :: int
  morphology :: int

record XBAGRecord =
  gen_ndx :: int
  mod_ndx :: int

record XMODRecord =
  mod_src_oper :: int
  mod_dest_oper :: int
  mod_amount :: int
  mod_arm_src_oper :: int
  mod_trans_oper :: int

record XGENRecord =
  gen_oper :: int
  gen_amount :: int

record INSTRecord =
  inst_name :: pystr
  inst_bag_ndx :: int

record SHDRRecord =
  sample_name :: pystr
  start :: int
  end' :: int
  start_loop :: int
  end_loop :: int
  sample_rate :: int
  original_pitch :: int
  pitch_correction :: int
  sample_link :: int
  sample_type :: int

fun PHDRRecord_init :: "field list \<Rightarrow> error + PHDRRecord" where
  "PHDRRecord_init [Bytes name, Num p, Num b, Num ndx, Num l, Num g, Num m] =
     (case utf8_decode name of Inl e \<Rightarrow> Inl e
      | Inr s \<Rightarrow> Inr \<lparr>preset_name = strip0 s, preset = p, bank = b, bag_ndx = ndx,
                     library = 0, genre = 0, morphology = 0\<rparr>)"
| "PHDRRecord_init _ = Inl TypeError"

fun XBAGRecord_init :: "field list \<Rightarrow> error + XBAGRecord" where
  "XBAGRecord_init [Num g, Num m] = Inr \<lparr>gen_ndx = g, mod_ndx = m\<rparr>"
| "XBAGRecord_init _ = Inl TypeError"

fun XMODRecord_init :: "field list \<Rightarrow> error + XMODRecord" where
  "XMODRecord_init [Num s, Num d, Num a, Num r, Num t] =
     Inr \<lparr>mod_src_oper = s, mod_dest_oper = d, mod_amount = a, mod_arm_src_oper = r,
          mod_trans_oper = t\<rparr>"
| "XMODRecord_init _ = Inl TypeError"

fun XGENRecord_init :: "field list \<Rightarrow> error + XGENRecord" where
  "XGENRecord_init [Num oper, Num a] = Inr \<lparr>gen_oper = oper, gen_amount = a\<rparr>"
| "XGENRecord_init _ = Inl TypeError"

fun INSTRecord_init :: "field list \<Rightarrow> error + INSTRecord" where
  "INSTRecord_init [Bytes name, Num ndx] =
     (case utf8_decode name of Inl e \<Rightarrow> Inl e
      | Inr s \<Rightarrow> Inr \<lparr>inst_name = strip0 s, inst_bag_ndx = ndx\<rparr>)"
| "INSTRecord_init _ = Inl TypeError"

fun SHDRRecord_init :: "field list \<Rightarrow> error + SHDRRecord" where
  "SHDRRecord_init [Bytes name, Num s, Num e, Num sl, Num el, Num rate, Num op, Num pc,
       Num link, Num ty] =
     (case utf8_decode name of Inl e \<Rightarrow> Inl e
      | Inr nm \<Rightarrow> Inr \<lparr>sample_name = strip0 nm, start = s, end' = e, start_loop = sl,
                      end_loop = el, sample_rate = rate, original_pitch = op,
                      pitch_correction = pc, sample_link = link, sample_type = ty\<rparr>)"
| "SHDRRecord_init _ = Inl TypeError"

definition PHDR :: "PHDRRecord rec_class" where
  "PHDR = \<lparr>format = [Fs 20, FH, FH, FH, FI, FI, FI], init = PHDRRecord_init\<rparr>"

definition XBAG :: "XBAGRecord rec_class" where
  "XBAG = \<lparr>format = [FH, FH], init = XBAGRecord_init\<rparr>"

definition XMOD :: "XMODRecord rec_class" where
  "XMOD = \<lparr>format = [FH, FH, FH, FH, FH], init = XMODRecord_init\<rparr>"

definition XGEN :: "XGENRecord rec_class" where
  "XGEN = \<lparr>format = [FH, FH], init = XGENRecord_init\<rparr>"

definition INST :: "INSTRecord rec_class" where
  "INST = \<lparr>format = [Fs 20, FH], init = INSTRecord_init\<rparr>"

definition SHDR :: "SHDRRecord rec_class" where
  "SHDR = \<lparr>format = [Fs 20, FI, FI, FI, FI, FI, FB, Fb, FH, FH], init = SHDRRecord_init\<rparr>"

section \<open>ChunkParser\<close>

record 'r ChunkParser =
  rec_class :: "'r rec_class"
  rec_size :: nat
  records :: "'r list"

definition ChunkParser_init :: "'r rec_class \<Rightarrow> 'r ChunkParser" where
  "ChunkParser_init record_class =
     \<lparr>rec_class = record_class, rec_size = calcsize (format record_class), records = []\<rparr>"

text \<open>\<open>_parse_record\<close>: the slice \<open>data[cp:cp + rec_size]\<close> is shorter at the end of the data.\<close>

definition parse_record :: "'r ChunkParser \<Rightarrow> byte list \<Rightarrow> nat \<Rightarrow> error + 'r" where
  "parse_record self data cp =
     (case struct_unpack (format (rec_class self)) (take (rec_size self) (drop cp data)) of
        Inl e \<Rightarrow> Inl e
      | Inr flds \<Rightarrow> init (rec_class self) flds)"

text \<open>
  \<open>int(size / rec_size)\<close>: the quotient truncated towards zero. The source divides in
  floating point; sizes are 32-bit header fields and record sizes are at most 46, where the
  truncated floating-point quotient is the truncated exact quotient.
\<close>

definition int_truediv :: "int \<Rightarrow> nat \<Rightarrow> int" where
  "int_truediv a b = (if a < 0 then - ((- a) div int b) else a div int b)"

fun parse_loop :: "nat \<Rightarrow> byte list \<Rightarrow> nat \<Rightarrow> 'r ChunkParser \<Rightarrow> error + 'r ChunkParser" where
  "parse_loop 0 data cp self = Inr self"
| "parse_loop (Suc n) data cp self =
     (case parse_record self data cp of
        Inl e \<Rightarrow> Inl e
      | Inr rec \<Rightarrow>
          parse_loop n data (cp + rec_size self) (self\<lparr>records := records self @ [rec]\<rparr>))"

definition parse :: "'r ChunkParser \<Rightarrow> byte list \<Rightarrow> int \<Rightarrow> error + 'r ChunkParser" where
  "parse self data sz =
     (if rec_size self = 0 then Inl ZeroDivisionError
      else parse_loop (nat (int_truediv sz (rec_size self) - 1)) data 0 self)"

section \<open>Chunk identifiers and headers\<close>

text \<open>Sequencing of fallible steps: an exception ends the computation.\<close>

fun and_then :: "error + 'a \<Rightarrow> ('a \<Rightarrow> error + 'b) \<Rightarrow> error + 'b" where
  "and_then (Inl e) k = Inl e"
| "and_then (Inr x) k = k x"

fun chunk_id_loop :: "string \<Rightarrow> nat list \<Rightarrow> int \<Rightarrow> error + int" where
  "chunk_id_loop id_str [] i = Inr i"
| "chunk_id_loop id_str (j # js) i =
     (case py_index id_str (int j) of
        Inl e \<Rightarrow> Inl e
      | Inr c \<Rightarrow> chunk_id_loop id_str js (i OR push_bit (j * 8) (of_char c)))"

definition chunk_id :: "string \<Rightarrow> error + int" where
  "chunk_id id_str = chunk_id_loop id_str [0, 1, 2, 3] 0"

text \<open>\<open>check_id\<close> prints a message and returns False on a mismatch.\<close>

definition check_id :: "int \<Rightarrow> string \<Rightarrow> error + bool" where
  "check_id act_id_num exp_id_str =
     and_then (chunk_id exp_id_str) (\<lambda>n. Inr (act_id_num = n))"

text \<open>\<open>if not check_id(...): sys.exit(1)\<close>, followed by the rest of the function.\<close>

definition exit_unless :: "error + bool \<Rightarrow> (error + 'a) \<Rightarrow> error + 'a" where
  "exit_unless c k = and_then c (\<lambda>ok. if ok then k else Inl SystemExit)"

text \<open>
  \<open>struct.unpack\<close> with a format of \<open>n\<close> codes \<open>I\<close> (\<open>"II"\<close>, \<open>"III"\<close>, \<open>"IIIIII"\<close>), as the
  headers are read: \<open>n\<close> unsigned 32-bit integers, or struct.error when the bytes are not
  exactly \<open>4 * n\<close>.
\<close>

definition header_ints :: "nat \<Rightarrow> byte list \<Rightarrow> error + int list" where
  "header_ints n bs =
     (if length bs \<noteq> 4 * n then Inl StructError
      else Inr (map (\<lambda>k. le_uint (take 4 (drop (4 * k) bs))) [0..<n]))"

section \<open>The metadata decoder\<close>

fun text_loop :: "byte list \<Rightarrow> int list \<Rightarrow> pystr \<Rightarrow> error + pystr" where
  "text_loop data [] s = Inr s"
| "text_loop data (j # js) s =
     (case py_index data j of
        Inl e \<Rightarrow> Inl e
      | Inr b \<Rightarrow> text_loop data js (s @ [unat b]))"

text \<open>
  \<open>parse_sub_chunk\<close> returns \<open>(None, None)\<close>, here \<open>None\<close>, when the identifier at \<open>cp\<close> is
  not the expected one, and the decoded value with the size of the sub-chunk otherwise.
  The position \<open>cp\<close> starts at 24 and grows, and sizes are unsigned, so both are naturals.
\<close>

definition parse_sub_chunk :: "byte list \<Rightarrow> nat \<Rightarrow> string \<Rightarrow> error + (pystr \<times> nat) option" where
  "parse_sub_chunk data cp id_str =
     and_then (header_ints 2 (take 8 (drop cp data))) (\<lambda>header.
     and_then (chunk_id id_str) (\<lambda>id_num.
       if header ! 0 \<noteq> id_num then Inr None
       else
         let size' = nat (header ! 1) in
         if id_str \<in> set [''ifil'', ''iver''] then
           let v = take size' (drop (cp + 8) data) in
           and_then (py_index v 1) (\<lambda>v1.
           and_then (py_index v 0) (\<lambda>v0.
           and_then (py_index v 3) (\<lambda>v3.
           and_then (py_index v 2) (\<lambda>v2.
             let maj_ver = push_bit 8 (uint v1) + uint v0;
                 min_ver = push_bit 8 (uint v3) + uint v2
             in Inr (Some (ascii (str_int maj_ver @ ''.'' @ str_int min_ver), size' + 8))))))
         else
           and_then (text_loop data (py_range (int cp + 8) (int cp + int size' + 7)) [])
             (\<lambda>s. Inr (Some (strip0 s, size' + 8)))))"

definition chunks :: "(string \<times> string \<times> bool) list" where
  "chunks =
     [(''ifil'', ''Version'', True),
      (''isng'', ''Target Sound Engine'', True),
      (''INAM'', ''Sound Font Bank Name'', True),
      (''irom'', ''ROM'', False),
      (''iver'', ''ROM Revision'', False),
      (''ICRD'', ''Date of Creation of the Bank'', False),
      (''IENG'', ''Sound Designers and Engineers for the Bank'', False),
      (''IPRD'', ''Product for which the Bank was intended'', False),
      (''ICOP'', ''Copyright'', False),
      (''ICMT'', ''Comments'', False),
      (''ISFT'', ''SoundFont tools used to create and alter the bank'', False)]"

text \<open>
  The loop of \<open>parse_info_list_chunk\<close> over the catalogue. The result is the lines printed
  and the value returned: \<open>None\<close> is Python's \<open>None\<close>, returned after the message about a
  mandatory sub-chunk that is not at the current position.
\<close>

type_synonym info = "(string \<times> pystr) list"

fun info_loop ::
  "byte list \<Rightarrow> (string \<times> string \<times> bool) list \<Rightarrow> nat \<Rightarrow> info \<Rightarrow> error + (string list \<times> info option)"
where
  "info_loop data [] cp info = Inr ([], Some info)"
| "info_loop data ((id_str, name, mandatory) # rest) cp info =
     (case parse_sub_chunk data cp id_str of
        Inl e \<Rightarrow> Inl e
      | Inr None \<Rightarrow>
          if mandatory then
            Inr ([''File does not have have RIFF format. '' @ name @ '' sub-chunk is not present''],
                 None)
          else info_loop data rest cp info
      | Inr (Some (data_str, sz)) \<Rightarrow> info_loop data rest (cp + sz) (info @ [(name, data_str)]))"

definition parse_info_list_chunk :: "byte list \<Rightarrow> nat \<Rightarrow> error + (string list \<times> info option)" where
  "parse_info_list_chunk data cp = info_loop data chunks cp []"

section \<open>Reading the file\<close>

text \<open>
  The file is its bytes and a position: \<open>f.read(n)\<close> at \<open>pos\<close> is \<open>take n (drop pos f)\<close> and
  moves the position by the number of bytes read.
\<close>

definition parse_chunk ::
  "byte list \<Rightarrow> nat \<Rightarrow> 'r rec_class \<Rightarrow> string \<Rightarrow> error + ('r ChunkParser \<times> nat)" where
  "parse_chunk f pos record_class id_str =
     (let data = take 8 (drop pos f); pos1 = pos + length data in
      and_then (header_ints 2 data) (\<lambda>header.
      exit_unless (check_id (header ! 0) id_str)
        (let sz = nat (header ! 1); data = take sz (drop pos1 f); pos2 = pos1 + length data in
         and_then (parse (ChunkParser_init record_class) data (int sz))
           (\<lambda>chunk. Inr (chunk, pos2)))))"

record sf2 =
  phdr :: "PHDRRecord ChunkParser"
  pbag :: "XBAGRecord ChunkParser"
  pmod :: "XMODRecord ChunkParser"
  pgen :: "XGENRecord ChunkParser"
  inst :: "INSTRecord ChunkParser"
  ibag :: "XBAGRecord ChunkParser"
  imod :: "XMODRecord ChunkParser"
  igen :: "XGENRecord ChunkParser"
  shdr :: "SHDRRecord ChunkParser"

text \<open>
  \<open>parse_file\<close> on the bytes of the file: the lines \<open>parse_info_list_chunk\<close> printed, the
  metadata it returned, and the nine parsed chunks.
\<close>

definition parse_file :: "byte list \<Rightarrow> error + (string list \<times> info option \<times> sf2)" where
  "parse_file f =
     (let file_size = length f; data = take 1024 f in
      and_then (header_ints 6 (take 24 data)) (\<lambda>header.
      exit_unless (check_id (header ! 0) ''RIFF'')
        (let riff_size = header ! 1 in
         if riff_size + 8 \<noteq> int file_size then Inl SystemExit
         else
         exit_unless (check_id (header ! 2) ''sfbk'')
        (exit_unless (check_id (header ! 3) ''LIST'')
        (let sz = nat (header ! 4) in
         exit_unless (check_id (header ! 5) ''INFO'')
        (and_then (parse_info_list_chunk data 24) (\<lambda>(out, info).
         let curr_pos = sz + 20 in
         and_then (header_ints 2 (take 8 (drop curr_pos data))) (\<lambda>header.
         exit_unless (check_id (header ! 0) ''LIST'')
        (let sz = nat (header ! 1);
             curr_pos = curr_pos + 8;
             curr_pos = curr_pos + sz;
             data = take 12 (drop curr_pos f);
             pos = curr_pos + length data
         in
         and_then (header_ints 3 data) (\<lambda>header.
         exit_unless (check_id (header ! 0) ''LIST'')
        (exit_unless (check_id (header ! 2) ''pdta'')
        (and_then (parse_chunk f pos PHDR ''phdr'') (\<lambda>(phdr, pos).
         and_then (parse_chunk f pos XBAG ''pbag'') (\<lambda>(pbag, pos).
         and_then (parse_chunk f pos XMOD ''pmod'') (\<lambda>(pmod, pos).
         and_then (parse_chunk f pos XGEN ''pgen'') (\<lambda>(pgen, pos).
         and_then (parse_chunk f pos INST ''inst'') (\<lambda>(inst, pos).
         and_then (parse_chunk f pos XBAG ''ibag'') (\<lambda>(ibag, pos).
         and_then (parse_chunk f pos XMOD ''imod'') (\<lambda>(imod, pos).
         and_then (parse_chunk f pos XGEN ''igen'') (\<lambda>(igen, pos).
         and_then (parse_chunk f pos SHDR ''shdr'') (\<lambda>(shdr, pos).
           Inr (out, info,
                \<lparr>phdr = phdr, pbag = pbag, pmod = pmod, pgen = pgen, inst = inst,
                 ibag = ibag, imod = imod, igen = igen, shdr = shdr\<rparr>))))))))))))))))))))))"

section \<open>The hierarchy resolver\<close>

record BankEntry =
  entry_preset :: int
  name :: pystr
  entry_bag_ndx :: int
  zones :: int
  instruments :: "pystr list"

fun next_bag_loop :: "PHDRRecord list \<Rightarrow> int \<Rightarrow> int option \<Rightarrow> int option" where
  "next_bag_loop [] ndx res = res"
| "next_bag_loop (rec # recs) ndx res =
     (if bag_ndx rec > ndx then
        (case res of
           None \<Rightarrow> next_bag_loop recs ndx (Some (bag_ndx rec))
         | Some r \<Rightarrow>
             if bag_ndx rec < r then next_bag_loop recs ndx (Some (bag_ndx rec))
             else next_bag_loop recs ndx res)
      else next_bag_loop recs ndx res)"

definition next_bag :: "PHDRRecord ChunkParser \<Rightarrow> int \<Rightarrow> int option" where
  "next_bag ph ndx = next_bag_loop (records ph) ndx None"

fun next_gen_loop :: "XBAGRecord list \<Rightarrow> int \<Rightarrow> int option \<Rightarrow> int option" where
  "next_gen_loop [] ndx res = res"
| "next_gen_loop (rec # recs) ndx res =
     (if gen_ndx rec > ndx then
        (case res of
           None \<Rightarrow> next_gen_loop recs ndx (Some (gen_ndx rec))
         | Some r \<Rightarrow>
             if gen_ndx rec < r then next_gen_loop recs ndx (Some (gen_ndx rec))
             else next_gen_loop recs ndx res)
      else next_gen_loop recs ndx res)"

definition next_gen :: "XBAGRecord ChunkParser \<Rightarrow> int \<Rightarrow> int option" where
  "next_gen pb ndx = next_gen_loop (records pb) ndx None"

text \<open>
  The dictionary \<open>banks\<close> keeps its keys in insertion order: an association list with one
  pair for each key.
\<close>

type_synonym banks = "(int \<times> BankEntry list) list"

definition banks_append :: "banks \<Rightarrow> int \<Rightarrow> BankEntry \<Rightarrow> banks" where
  "banks_append banks b e = map (\<lambda>(k, es). if k = b then (k, es @ [e]) else (k, es)) banks"

text \<open>The loop over \<open>gen_idx\<close>, with the list \<open>instruments\<close> it appends to.\<close>

fun gen_loop :: "sf2 \<Rightarrow> int list \<Rightarrow> pystr list \<Rightarrow> error + pystr list" where
  "gen_loop s [] instrs = Inr instrs"
| "gen_loop s (gen_idx # rest) instrs =
     (case py_index (records (pgen s)) gen_idx of
        Inl e \<Rightarrow> Inl e
      | Inr gen \<Rightarrow>
          if gen_oper gen = 41 then
            (case py_index (records (inst s)) (gen_amount gen) of
               Inl e \<Rightarrow> Inl e
             | Inr ins \<Rightarrow>
                 if inst_name ins \<notin> set instrs
                 then gen_loop s rest (instrs @ [inst_name ins])
                 else gen_loop s rest instrs)
          else gen_loop s rest instrs)"

text \<open>The loop over \<open>bag_idx\<close>.\<close>

fun bag_loop :: "sf2 \<Rightarrow> int list \<Rightarrow> pystr list \<Rightarrow> error + pystr list" where
  "bag_loop s [] instrs = Inr instrs"
| "bag_loop s (bag_idx # rest) instrs =
     (case py_index (records (pbag s)) bag_idx of
        Inl e \<Rightarrow> Inl e
      | Inr bag \<Rightarrow>
          let gens = (case next_gen (pbag s) (gen_ndx bag) of
                        None \<Rightarrow> int (length (records (pgen s))) - gen_ndx bag
                      | Some nxt \<Rightarrow> nxt - gen_ndx bag)
          in case gen_loop s (py_range (gen_ndx bag) (gen_ndx bag + gens)) instrs of
               Inl e \<Rightarrow> Inl e
             | Inr instrs' \<Rightarrow> bag_loop s rest instrs')"

text \<open>The loop over the, by now sorted, preset headers.\<close>

fun preset_loop :: "sf2 \<Rightarrow> PHDRRecord list \<Rightarrow> banks \<Rightarrow> error + banks" where
  "preset_loop s [] banks = Inr banks"
| "preset_loop s (rec # recs) banks =
     (let zs = (case next_bag (phdr s) (bag_ndx rec) of
                  None \<Rightarrow> int (length (records (pbag s))) - bag_ndx rec
                | Some nxt \<Rightarrow> nxt - bag_ndx rec);
          b = bank rec;
          banks1 = (if b \<notin> fst ` set banks then banks @ [(b, [])] else banks)
      in case bag_loop s (py_range (bag_ndx rec) (bag_ndx rec + zs)) [] of
           Inl e \<Rightarrow> Inl e
         | Inr instrs' \<Rightarrow>
             preset_loop s recs
               (banks_append banks1 b
                  \<lparr>entry_preset = preset rec, name = preset_name rec,
                   entry_bag_ndx = bag_ndx rec, zones = zs, instruments = instrs'\<rparr>))"

text \<open>
  \<open>process\<close> sorts \<open>phdr.records\<close> in place (Python's sort is stable) and then builds the
  banks: the result is the nine chunks as \<open>process\<close> leaves them, and the banks or the
  exception raised.
\<close>

definition process :: "sf2 \<Rightarrow> sf2 \<times> (error + banks)" where
  "process s =
     (let s' = s\<lparr>phdr := (phdr s)\<lparr>records := sort_key bank (records (phdr s))\<rparr>\<rparr>
      in (s', preset_loop s' (records (phdr s')) []))"

section \<open>Generator amounts\<close>

datatype amount = IntAmount int | StrAmount pystr

definition RANGE_GENS :: "int list" where
  "RANGE_GENS = [43, 44]"

definition unpack_amount :: "int \<Rightarrow> int \<Rightarrow> amount" where
  "unpack_amount gen a =
     (if gen \<in> set RANGE_GENS
      then StrAmount (ascii (str_int (a AND 0xff) @ '' - '' @ str_int (drop_bit 8 (a AND 0xff00))))
      else IntAmount a)"

section \<open>Re-encoding of the numeric records\<close>

text \<open>
  The source has no encoder. To state what re-encoding the decoded records gives,
  \<open>le_bytes n\<close> is \<open>struct.pack\<close> of an unsigned little-endian integer of \<open>n\<close> bytes, and
  the three encoders pack the fields of a record in the order of its format.
\<close>

fun le_bytes :: "nat \<Rightarrow> int \<Rightarrow> byte list" where
  "le_bytes 0 v = []"
| "le_bytes (Suc n) v = word_of_int v # le_bytes n (v div 256)"

definition encode_XBAG :: "XBAGRecord \<Rightarrow> byte list" where
  "encode_XBAG r = le_bytes 2 (gen_ndx r) @ le_bytes 2 (mod_ndx r)"

definition encode_XMOD :: "XMODRecord \<Rightarrow> byte list" where
  "encode_XMOD r = le_bytes 2 (mod_src_oper r) @ le_bytes 2 (mod_dest_oper r)
     @ le_bytes 2 (mod_amount r) @ le_bytes 2 (mod_arm_src_oper r) @ le_bytes 2 (mod_trans_oper r)"

definition encode_XGEN :: "XGENRecord \<Rightarrow> byte list" where
  "encode_XGEN r = le_bytes 2 (gen_oper r) @ le_bytes 2 (gen_amount r)"

section \<open>What the resolver is to compute\<close>

text \<open>
  The specification of the resolver, in its own words. \<open>spec_zones s z\<close> is the zone count
  of a preset whose zones start at \<open>z\<close>: up to the smallest zone start of any preset
  header above \<open>z\<close>, or to the end of the zone array; \<open>spec_gens\<close> is the same one level
  down. \<open>preset_refs\<close> lists the instrument names a preset refers to, zone by zone and
  generator by generator, with repetitions, and \<open>first_occurrences\<close> keeps the first
  occurrence of each element of a list. \<open>bank_entries\<close> is \<open>banks[b]\<close>, empty for a bank
  that has no key.
\<close>

definition spec_zones :: "sf2 \<Rightarrow> int \<Rightarrow> int" where
  "spec_zones s z =
     (let later = filter (\<lambda>n. z < n) (map bag_ndx (records (phdr s)))
      in if later = [] then int (length (records (pbag s))) - z else Min (set later) - z)"

definition spec_gens :: "sf2 \<Rightarrow> int \<Rightarrow> int" where
  "spec_gens s g =
     (let later = filter (\<lambda>n. g < n) (map gen_ndx (records (pbag s)))
      in if later = [] then int (length (records (pgen s))) - g else Min (set later) - g)"

definition first_occurrences :: "'a list \<Rightarrow> 'a list" where
  "first_occurrences xs = rev (remdups (rev xs))"

definition gen_ref :: "sf2 \<Rightarrow> int \<Rightarrow> pystr list" where
  "gen_ref s gi =
     (case py_index (records (pgen s)) gi of
        Inl e \<Rightarrow> []
      | Inr g \<Rightarrow>
          if gen_oper g = 41 then
            (case py_index (records (inst s)) (gen_amount g) of
               Inl e \<Rightarrow> []
             | Inr ins \<Rightarrow> [inst_name ins])
          else [])"

definition zone_refs :: "sf2 \<Rightarrow> int \<Rightarrow> pystr list" where
  "zone_refs s bi =
     (case py_index (records (pbag s)) bi of
        Inl e \<Rightarrow> []
      | Inr bag \<Rightarrow>
          concat (map (gen_ref s)
            (py_range (gen_ndx bag) (gen_ndx bag + spec_gens s (gen_ndx bag)))))"

definition preset_refs :: "sf2 \<Rightarrow> PHDRRecord \<Rightarrow> pystr list" where
  "preset_refs s r =
     concat (map (zone_refs s) (py_range (bag_ndx r) (bag_ndx r + spec_zones s (bag_ndx r))))"

definition spec_entry :: "sf2 \<Rightarrow> PHDRRecord \<Rightarrow> BankEntry" where
  "spec_entry s r =
     \<lparr>entry_preset = preset r, name = preset_name r, entry_bag_ndx = bag_ndx r,
      zones = spec_zones s (bag_ndx r),
      instruments = first_occurrences (preset_refs s r)\<rparr>"

definition bank_entries :: "banks \<Rightarrow> int \<Rightarrow> BankEntry list" where
  "bank_entries banks b = (case map_of banks b of None \<Rightarrow> [] | Some es \<Rightarrow> es)"

section \<open>A small bank\<close>

text \<open>
  Two presets, stored with bank 1 before bank 0, three zones, four generators and two
  instruments; the first zone of preset A has a key range and the instrument Piano, its
  second zone the instrument Piano again.
\<close>

definition with_records :: "'r rec_class \<Rightarrow> 'r list \<Rightarrow> 'r ChunkParser" where
  "with_records rc rs = (ChunkParser_init rc)\<lparr>records := rs\<rparr>"

definition example_sf2 :: sf2 where
  "example_sf2 =
     \<lparr>phdr = with_records PHDR
        [\<lparr>preset_name = ascii ''B'', preset = 0, bank = 1, bag_ndx = 2,
          library = 0, genre = 0, morphology = 0\<rparr>,
         \<lparr>preset_name = ascii ''A'', preset = 0, bank = 0, bag_ndx = 0,
          library = 0, genre = 0, morphology = 0\<rparr>],
      pbag = with_records XBAG
        [\<lparr>gen_ndx = 0, mod_ndx = 0\<rparr>, \<lparr>gen_ndx = 2, mod_ndx = 0\<rparr>, \<lparr>gen_ndx = 3, mod_ndx = 0\<rparr>],
      pmod = with_records XMOD [],
      pgen = with_records XGEN
        [\<lparr>gen_oper = 43, gen_amount = 32512\<rparr>, \<lparr>gen_oper = 41, gen_amount = 0\<rparr>,
         \<lparr>gen_oper = 41, gen_amount = 0\<rparr>, \<lparr>gen_oper = 41, gen_amount = 1\<rparr>],
      inst = with_records INST
        [\<lparr>inst_name = ascii ''Piano'', inst_bag_ndx = 0\<rparr>,
         \<lparr>inst_name = ascii ''Bass'', inst_bag_ndx = 1\<rparr>],
      ibag = with_records XBAG [],
      imod = with_records XMOD [],
      igen = with_records XGEN [],
      shdr = with_records SHDR []\<rparr>"

definition example_banks :: banks where
  "example_banks =
     [(0, [\<lparr>entry_preset = 0, name = ascii ''A'', entry_bag_ndx = 0, zones = 2,
            instruments = [ascii ''Piano'']\<rparr>]),
      (1, [\<lparr>entry_preset = 0, name = ascii ''B'', entry_bag_ndx = 2, zones = 1,
            instruments = [ascii ''Bass'']\<rparr>])]"

section \<open>Text fields and metadata: the cases looked at\<close>

text \<open>
  \<open>rstrip0\<close> removes the trailing null characters of a string and nothing else.
\<close>

definition rstrip0 :: "pystr \<Rightarrow> pystr" where
  "rstrip0 s = rev (dropWhile (\<lambda>c. c = 0) (rev s))"

text \<open>
  A file of 146 bytes whose informational list has the sub-chunks \<open>isng\<close> and \<open>INAM\<close> but
  no \<open>ifil\<close>, followed by a sample list without samples and by the nine record chunks,
  each empty.
\<close>

definition missing_version_file :: "byte list" where
  "missing_version_file =
     [0x52, 0x49, 0x46, 0x46, 138, 0, 0, 0, 0x73, 0x66, 0x62, 0x6b,
      0x4c, 0x49, 0x53, 0x54, 30, 0, 0, 0, 0x49, 0x4e, 0x46, 0x4f,
      0x69, 0x73, 0x6e, 0x67, 8, 0, 0, 0, 0x45, 0x4d, 0x55, 0x38, 0x30, 0x30, 0x30, 0,
      0x49, 0x4e, 0x41, 0x4d, 2, 0, 0, 0, 0x58, 0,
      0x4c, 0x49, 0x53, 0x54, 4, 0, 0, 0, 0x73, 0x64, 0x74, 0x61,
      0x4c, 0x49, 0x53, 0x54, 76, 0, 0, 0, 0x70, 0x64, 0x74, 0x61,
      0x70, 0x68, 0x64, 0x72, 0, 0, 0, 0,
      0x70, 0x62, 0x61, 0x67, 0, 0, 0, 0,
      0x70, 0x6d, 0x6f, 0x64, 0, 0, 0, 0,
      0x70, 0x67, 0x65, 0x6e, 0, 0, 0, 0,
      0x69, 0x6e, 0x73, 0x74, 0, 0, 0, 0,
      0x69, 0x62, 0x61, 0x67, 0, 0, 0, 0,
      0x69, 0x6d, 0x6f, 0x64, 0, 0, 0, 0,
      0x69, 0x67, 0x65, 0x6e, 0, 0, 0, 0,
      0x73, 0x68, 0x64, 0x72, 0, 0, 0, 0]"

section \<open>Rendering of generator amounts\<close>

lemma drop_bit_high_byte: "drop_bit 8 ((a::int) AND 0xff00) = drop_bit 8 a AND 0xff"
  by (rule bit_eqI) (auto simp: bit_simps)

text \<open>
  Claim C6. For a generator whose operator code is 43 or 44 and any amount \<open>A\<close>, the
  rendered value is the string \<open>"{A & 0xFF} - {(A >> 8) & 0xFF}"\<close>, whose two numbers are
  unsigned bytes; for any other operator code the rendered value is the amount itself.
\<close>

theorem unpack_amount_rendering:
  "(gen = 43 \<or> gen = 44 \<longrightarrow>
      unpack_amount gen a =
        StrAmount (ascii (str_int (a AND 0xFF) @ '' - '' @ str_int (drop_bit 8 a AND 0xFF)))
      \<and> 0 \<le> a AND 0xFF \<and> a AND 0xFF < 256
      \<and> 0 \<le> drop_bit 8 a AND 0xFF \<and> drop_bit 8 a AND 0xFF < 256)
   \<and> (gen \<noteq> 43 \<and> gen \<noteq> 44 \<longrightarrow> unpack_amount gen a = IntAmount a)"
proof -
  have lo: "a AND 0xFF < 256" and hi: "drop_bit 8 a AND 0xFF < 256"
    by (rule AND_upper2''; simp)+
  show ?thesis
    using lo hi by (auto simp: unpack_amount_def RANGE_GENS_def drop_bit_high_byte)
qed

theorem unpack_amount_rendering_witness:
  "unpack_amount 43 32517 = StrAmount (ascii ''5 - 127'')
   \<and> unpack_amount 44 0 = StrAmount (ascii ''0 - 0'')
   \<and> unpack_amount 41 32517 = IntAmount 32517"
proof -
  have a: "str_int (32517 AND 0xFF) @ '' - '' @ str_int (drop_bit 8 32517 AND 0xFF) = ''5 - 127''"
    by code_simp
  have b: "str_int (0 AND 0xFF) @ '' - '' @ str_int (drop_bit 8 0 AND 0xFF) = ''0 - 0''"
    by code_simp
  show ?thesis
    using unpack_amount_rendering [of 43 32517] unpack_amount_rendering [of 44 0]
      unpack_amount_rendering [of 41 32517] a b
    by simp
qed

section \<open>The record array decoder\<close>

text \<open>
  Claim C10. A chunk shorter than one record (the empty chunk too) gives a record count
  \<open>int(size / rec_size) - 1\<close> of \<open>-1\<close>, the loop does not run, and the decoder returns
  without an error and with no record.
\<close>

theorem parse_short_chunk:
  "0 \<le> sz \<Longrightarrow> sz < int (calcsize (format rc)) \<Longrightarrow>
     int_truediv sz (calcsize (format rc)) - 1 = - 1
     \<and> (\<exists>c. parse (ChunkParser_init rc) data sz = Inr c \<and> records c = [])"
  by (simp add: parse_def ChunkParser_init_def int_truediv_def)

theorem parse_short_chunk_witness:
  "int_truediv 3 (calcsize (format XGEN)) - 1 = - 1
   \<and> (\<exists>c. parse (ChunkParser_init XGEN) [1, 0, 2] 3 = Inr c \<and> records c = [])
   \<and> (\<exists>c. parse (ChunkParser_init PHDR) [] 0 = Inr c \<and> records c = [])"
  using parse_short_chunk [of 3 XGEN "[1, 0, 2]"] parse_short_chunk [of 0 PHDR "[]"]
  by (simp add: XGEN_def PHDR_def calcsize_def)

subsection \<open>The loop of \<open>parse\<close>\<close>

lemma parse_record_records [simp]:
  "parse_record (self\<lparr>records := rs\<rparr>) data cp = parse_record self data cp"
  by (simp add: parse_record_def split: sum.splits)

lemma parse_loop_Inr:
  "parse_loop n data cp self = Inr c \<Longrightarrow>
     \<exists>recs. c = self\<lparr>records := records self @ recs\<rparr> \<and> length recs = n
       \<and> (\<forall>i<n. parse_record self data (cp + i * rec_size self) = Inr (recs ! i))"
proof (induction n arbitrary: cp self)
  case 0
  then show ?case by simp
next
  case (Suc n)
  from Suc.prems obtain r where r: "parse_record self data cp = Inr r"
    and rest: "parse_loop n data (cp + rec_size self) (self\<lparr>records := records self @ [r]\<rparr>) = Inr c"
    by (auto split: sum.splits)
  from Suc.IH [OF rest] obtain recs where
    c: "c = self\<lparr>records := records self @ [r] @ recs\<rparr>" and len: "length recs = n"
    and each: "\<forall>i<n. parse_record self data (cp + rec_size self + i * rec_size self) = Inr (recs ! i)"
    by auto
  have "\<forall>i<Suc n. parse_record self data (cp + i * rec_size self) = Inr ((r # recs) ! i)"
  proof (intro allI impI)
    fix i assume "i < Suc n"
    show "parse_record self data (cp + i * rec_size self) = Inr ((r # recs) ! i)"
    proof (cases i)
      case 0
      then show ?thesis using r by simp
    next
      case (Suc j)
      with \<open>i < Suc n\<close> each show ?thesis by (simp add: add.assoc)
    qed
  qed
  with c len show ?case by (intro exI [of _ "r # recs"]) simp
qed

lemma parse_loop_total:
  "(\<forall>i<n. \<exists>r. parse_record self data (cp + i * rec_size self) = Inr r) \<Longrightarrow>
     \<exists>c. parse_loop n data cp self = Inr c"
proof (induction n arbitrary: cp self)
  case 0
  then show ?case by simp
next
  case (Suc n)
  from Suc.prems obtain r where r: "parse_record self data cp = Inr r"
    by force
  have "\<forall>i<n. \<exists>r'. parse_record (self\<lparr>records := records self @ [r]\<rparr>) data
           (cp + rec_size self + i * rec_size (self\<lparr>records := records self @ [r]\<rparr>)) = Inr r'"
  proof (intro allI impI)
    fix i assume "i < n"
    then have "Suc i < Suc n" by simp
    with Suc.prems obtain r' where "parse_record self data (cp + Suc i * rec_size self) = Inr r'"
      by blast
    then show "\<exists>r'. parse_record (self\<lparr>records := records self @ [r]\<rparr>) data
           (cp + rec_size self + i * rec_size (self\<lparr>records := records self @ [r]\<rparr>)) = Inr r'"
      by (simp add: add.assoc)
  qed
  from Suc.IH [OF this] r show ?case by simp
qed

lemma parse_loop_cong:
  "(\<forall>i<n. parse_record self data' (cp + i * rec_size self) = parse_record self data (cp + i * rec_size self)) \<Longrightarrow>
     parse_loop n data' cp self = parse_loop n data cp self"
proof (induction n arbitrary: cp self)
  case 0
  then show ?case by simp
next
  case (Suc n)
  from Suc.prems have h: "parse_record self data' cp = parse_record self data cp"
    by force
  show ?case
  proof (cases "parse_record self data cp")
    case (Inl e)
    with h show ?thesis by simp
  next
    case (Inr r)
    have "\<forall>i<n. parse_record (self\<lparr>records := records self @ [r]\<rparr>) data'
             (cp + rec_size self + i * rec_size (self\<lparr>records := records self @ [r]\<rparr>))
           = parse_record (self\<lparr>records := records self @ [r]\<rparr>) data
             (cp + rec_size self + i * rec_size (self\<lparr>records := records self @ [r]\<rparr>))"
    proof (intro allI impI)
      fix i assume "i < n"
      then have "Suc i < Suc n" by simp
      with Suc.prems have "parse_record self data' (cp + Suc i * rec_size self)
           = parse_record self data (cp + Suc i * rec_size self)" by blast
      then show "parse_record (self\<lparr>records := records self @ [r]\<rparr>) data'
             (cp + rec_size self + i * rec_size (self\<lparr>records := records self @ [r]\<rparr>))
           = parse_record (self\<lparr>records := records self @ [r]\<rparr>) data
             (cp + rec_size self + i * rec_size (self\<lparr>records := records self @ [r]\<rparr>))"
        by (simp add: add.assoc)
    qed
    from Suc.IH [OF this] Inr h show ?thesis by simp
  qed
qed

lemma concat_slices:
  "n * W \<le> length data \<Longrightarrow>
     concat (map (\<lambda>i. take W (drop (i * W) data)) [0..<n]) = take (n * W) data"
proof (induction n)
  case 0
  then show ?case by simp
next
  case (Suc n)
  then have "concat (map (\<lambda>i. take W (drop (i * W) data)) [0..<n]) = take (n * W) data"
    by simp
  moreover have "take (n * W) data @ take W (drop (n * W) data) = take (n * W + W) data"
    by (simp add: take_add)
  ultimately show ?case by (simp add: add.commute)
qed

lemma parse_loop_Inl:
  "parse_loop n data cp self = Inl e \<Longrightarrow>
     \<exists>i<n. parse_record self data (cp + i * rec_size self) = Inl e"
proof (induction n arbitrary: cp self)
  case 0
  then show ?case by simp
next
  case (Suc n)
  show ?case
  proof (cases "parse_record self data cp")
    case (Inl e')
    with Suc.prems have "parse_record self data (cp + 0 * rec_size self) = Inl e" by simp
    then show ?thesis by blast
  next
    case (Inr r)
    with Suc.prems have
      "parse_loop n data (cp + rec_size self) (self\<lparr>records := records self @ [r]\<rparr>) = Inl e"
      by simp
    from Suc.IH [OF this] obtain i where "i < n"
      and "parse_record self data (cp + rec_size self + i * rec_size self) = Inl e"
      by auto
    then have "Suc i < Suc n \<and> parse_record self data (cp + Suc i * rec_size self) = Inl e"
      by (simp add: add.assoc)
    then show ?thesis by blast
  qed
qed

lemma parse_record_slice:
  "cp + calcsize (format rc) \<le> length data \<Longrightarrow>
     parse_record (ChunkParser_init rc) data cp =
       init rc (unpack_fields (format rc) (take (calcsize (format rc)) (drop cp data)))"
  by (simp add: parse_record_def ChunkParser_init_def struct_unpack_def)

lemma record_count: "0 < W \<Longrightarrow> nat (int_truediv (int L) W - 1) = L div W - 1"
  by (simp add: int_truediv_def zdiv_int [symmetric] nat_diff_distrib')

lemma slice_bound:
  assumes "0 < (W::nat)" and "i < L div W - 1"
  shows "i * W + W \<le> L div W * W - W"
proof -
  from assms have "Suc i \<le> L div W - 1" by simp
  then have "Suc i * W \<le> (L div W - 1) * W" by (rule mult_le_mono1)
  then show ?thesis by (simp add: diff_mult_distrib)
qed

lemma slice_bound': "0 < (W::nat) \<Longrightarrow> i < L div W - 1 \<Longrightarrow> i * W + W \<le> L"
  using slice_bound [of W i L] div_times_less_eq_dividend [of L W] by linarith

lemma parse_init:
  "0 < calcsize (format rc) \<Longrightarrow>
   parse (ChunkParser_init rc) data (int L) =
     parse_loop (L div calcsize (format rc) - 1) data 0 (ChunkParser_init rc)"
  using record_count [of "calcsize (format rc)" L]
  by (simp add: parse_def) (simp add: ChunkParser_init_def)

lemma parse_records:
  assumes W: "calcsize (format rc) = W" "0 < W" and L: "length data = L"
    and ok: "parse (ChunkParser_init rc) data (int L) = Inr c"
  shows "length (records c) = L div W - 1"
    and "\<forall>i < L div W - 1.
           init rc (unpack_fields (format rc) (take W (drop (i * W) data))) = Inr (records c ! i)"
proof -
  from ok W have "parse_loop (L div W - 1) data 0 (ChunkParser_init rc) = Inr c"
    by (simp add: parse_init)
  from parse_loop_Inr [OF this] obtain recs where
    c: "c = (ChunkParser_init rc)\<lparr>records := records (ChunkParser_init rc) @ recs\<rparr>"
    and len: "length recs = L div W - 1"
    and each: "\<forall>i<L div W - 1. parse_record (ChunkParser_init rc) data
                 (0 + i * rec_size (ChunkParser_init rc)) = Inr (recs ! i)"
    by blast
  have recs: "records c = recs" using c by (simp add: ChunkParser_init_def)
  show "length (records c) = L div W - 1" using recs len by simp
  show "\<forall>i < L div W - 1.
           init rc (unpack_fields (format rc) (take W (drop (i * W) data))) = Inr (records c ! i)"
  proof (intro allI impI)
    fix i assume i: "i < L div W - 1"
    then have "i * W + calcsize (format rc) \<le> length data"
      using slice_bound' [of W i L] W L by simp
    from parse_record_slice [OF this] each i W recs
    show "init rc (unpack_fields (format rc) (take W (drop (i * W) data))) = Inr (records c ! i)"
      by (simp add: ChunkParser_init_def)
  qed
qed

lemma parse_succeeds:
  assumes W: "calcsize (format rc) = W" "0 < W" and L: "length data = L"
    and dec: "\<forall>bs. length bs = W \<longrightarrow> (\<exists>r. init rc (unpack_fields (format rc) bs) = Inr r)"
  shows "\<exists>c. parse (ChunkParser_init rc) data (int L) = Inr c"
proof -
  have "\<forall>i<L div W - 1. \<exists>r. parse_record (ChunkParser_init rc) data
           (0 + i * rec_size (ChunkParser_init rc)) = Inr r"
  proof (intro allI impI)
    fix i assume i: "i < L div W - 1"
    then have b: "i * W + calcsize (format rc) \<le> length data"
      using slice_bound' [of W i L] W L by simp
    then have "length (take W (drop (i * W) data)) = W" using W by simp
    with dec obtain r where
      "init rc (unpack_fields (format rc) (take W (drop (i * W) data))) = Inr r" by blast
    with parse_record_slice [OF b] W
    show "\<exists>r. parse_record (ChunkParser_init rc) data
           (0 + i * rec_size (ChunkParser_init rc)) = Inr r"
      by (simp add: ChunkParser_init_def)
  qed
  from parse_loop_total [OF this] W show ?thesis by (simp add: parse_init)
qed

lemma parse_fails:
  assumes W: "calcsize (format rc) = W" "0 < W" and L: "length data = L"
    and err: "parse (ChunkParser_init rc) data (int L) = Inl e"
  shows "\<exists>i < L div W - 1.
           init rc (unpack_fields (format rc) (take W (drop (i * W) data))) = Inl e"
proof -
  from err W have "parse_loop (L div W - 1) data 0 (ChunkParser_init rc) = Inl e"
    by (simp add: parse_init)
  from parse_loop_Inl [OF this] obtain i where i: "i < L div W - 1"
    and e: "parse_record (ChunkParser_init rc) data (0 + i * rec_size (ChunkParser_init rc)) = Inl e"
    by blast
  from i have "i * W + calcsize (format rc) \<le> length data"
    using slice_bound' [of W i L] W L by simp
  from parse_record_slice [OF this] e W
  have "init rc (unpack_fields (format rc) (take W (drop (i * W) data))) = Inl e"
    by (simp add: ChunkParser_init_def)
  with i show ?thesis by blast
qed

lemma parse_prefix:
  assumes W: "calcsize (format rc) = W" "0 < W"
    and M: "L div W * W - W \<le> M"
    and eq: "take M data' = take M data"
  shows "parse (ChunkParser_init rc) data' (int L) = parse (ChunkParser_init rc) data (int L)"
proof -
  have "\<forall>i<L div W - 1.
          parse_record (ChunkParser_init rc) data' (0 + i * rec_size (ChunkParser_init rc))
        = parse_record (ChunkParser_init rc) data (0 + i * rec_size (ChunkParser_init rc))"
  proof (intro allI impI)
    fix i assume i: "i < L div W - 1"
    then have b: "i * W + W \<le> M" using slice_bound [of W i L] W M by simp
    have "\<And>d. take W (drop (i * W) d) = take W (drop (i * W) (take M d))"
      using b by (simp add: drop_take min_def)
    then have "take W (drop (i * W) data') = take W (drop (i * W) data)"
      using eq by metis
    then show "parse_record (ChunkParser_init rc) data' (0 + i * rec_size (ChunkParser_init rc))
        = parse_record (ChunkParser_init rc) data (0 + i * rec_size (ChunkParser_init rc))"
      using W by (simp add: parse_record_def ChunkParser_init_def)
  qed
  from parse_loop_cong [OF this] W show ?thesis by (simp add: parse_init)
qed

lemma reencode:
  assumes W: "calcsize (format rc) = W" "0 < W" and L: "length data = L"
    and ok: "parse (ChunkParser_init rc) data (int L) = Inr c"
    and enc: "\<forall>bs r. length bs = W \<and> init rc (unpack_fields (format rc) bs) = Inr r \<longrightarrow> enc r = bs"
  shows "concat (map enc (records c)) = take (L div W * W - W) data"
proof -
  let ?n = "L div W - 1"
  from parse_records [OF W L ok] have len: "length (records c) = ?n"
    and each: "\<forall>i < ?n.
           init rc (unpack_fields (format rc) (take W (drop (i * W) data))) = Inr (records c ! i)"
    by auto
  have "map enc (records c) = map (\<lambda>i. take W (drop (i * W) data)) [0..<?n]"
  proof (rule nth_equalityI)
    show "length (map enc (records c)) = length (map (\<lambda>i. take W (drop (i * W) data)) [0..<?n])"
      using len by simp
  next
    fix i assume "i < length (map enc (records c))"
    then have i: "i < ?n" using len by simp
    then have "length (take W (drop (i * W) data)) = W"
      using slice_bound' [of W i L] W L by simp
    with enc each i have "enc (records c ! i) = take W (drop (i * W) data)" by blast
    then show "map enc (records c) ! i = map (\<lambda>i. take W (drop (i * W) data)) [0..<?n] ! i"
      using i len by simp
  qed
  moreover have "?n * W \<le> length data"
  proof -
    have "L div W * W \<le> L" by simp
    then have "L div W * W - W \<le> L" by linarith
    then show ?thesis using L by (simp add: diff_mult_distrib)
  qed
  ultimately show ?thesis
    using concat_slices [of ?n W data] by (simp add: diff_mult_distrib)
qed

subsection \<open>The layouts without a name\<close>

lemma le_uint_nonneg: "0 \<le> le_uint bs"
  by (induction bs) auto

lemma le_bytes_le_uint: "le_bytes (length bs) (le_uint bs) = bs"
proof (induction bs)
  case Nil
  then show ?case by simp
next
  case (Cons b bs)
  have z: "(256 :: byte) = 0" by simp
  have "word_of_int (uint b + 256 * le_uint bs) = b + (256 :: byte) * word_of_int (le_uint bs)"
    by simp
  then have "word_of_int (uint b + 256 * le_uint bs) = b"
    by (simp only: z mult_zero_left add_0_right)
  moreover have "(uint b + 256 * le_uint bs) div 256 = le_uint bs"
    using uint_lt2p [of b] by (simp add: div_pos_pos_trivial)
  ultimately show ?case using Cons.IH by simp
qed

lemma le_bytes_take:
  "k + n \<le> length bs \<Longrightarrow> le_bytes n (le_uint (take n (drop k bs))) = take n (drop k bs)"
  using le_bytes_le_uint [of "take n (drop k bs)"] by simp

lemma encode_XGEN_inverse:
  assumes "length bs = 4" and "init XGEN (unpack_fields (format XGEN) bs) = Inr r"
  shows "encode_XGEN r = bs"
proof -
  have r: "r = \<lparr>gen_oper = le_uint (take 2 bs), gen_amount = le_uint (take 2 (drop 2 bs))\<rparr>"
    using assms(2) by (simp add: XGEN_def)
  have "le_bytes 2 (le_uint (take 2 bs)) = take 2 bs"
    using le_bytes_take [of 0 2 bs] assms(1) by simp
  moreover have "le_bytes 2 (le_uint (take 2 (drop 2 bs))) = take 2 (drop 2 bs)"
    using le_bytes_take [of 2 2 bs] assms(1) by simp
  moreover have "take 2 bs @ take 2 (drop 2 bs) = bs"
    using assms(1) take_add [of 2 2 bs] by simp
  ultimately show ?thesis by (simp add: r encode_XGEN_def)
qed

lemma encode_XBAG_inverse:
  assumes "length bs = 4" and "init XBAG (unpack_fields (format XBAG) bs) = Inr r"
  shows "encode_XBAG r = bs"
proof -
  have r: "r = \<lparr>gen_ndx = le_uint (take 2 bs), mod_ndx = le_uint (take 2 (drop 2 bs))\<rparr>"
    using assms(2) by (simp add: XBAG_def)
  have "le_bytes 2 (le_uint (take 2 bs)) = take 2 bs"
    using le_bytes_take [of 0 2 bs] assms(1) by simp
  moreover have "le_bytes 2 (le_uint (take 2 (drop 2 bs))) = take 2 (drop 2 bs)"
    using le_bytes_take [of 2 2 bs] assms(1) by simp
  moreover have "take 2 bs @ take 2 (drop 2 bs) = bs"
    using assms(1) take_add [of 2 2 bs] by simp
  ultimately show ?thesis by (simp add: r encode_XBAG_def)
qed

lemma encode_XMOD_inverse:
  assumes "length bs = 10" and "init XMOD (unpack_fields (format XMOD) bs) = Inr r"
  shows "encode_XMOD r = bs"
proof -
  have r: "r = \<lparr>mod_src_oper = le_uint (take 2 bs),
                  mod_dest_oper = le_uint (take 2 (drop 2 bs)),
                  mod_amount = le_uint (take 2 (drop 4 bs)),
                  mod_arm_src_oper = le_uint (take 2 (drop 6 bs)),
                  mod_trans_oper = le_uint (take 2 (drop 8 bs))\<rparr>"
    using assms(2) by (simp add: XMOD_def)
  have f: "le_bytes 2 (le_uint (take 2 bs)) = take 2 bs"
    "le_bytes 2 (le_uint (take 2 (drop 2 bs))) = take 2 (drop 2 bs)"
    "le_bytes 2 (le_uint (take 2 (drop 4 bs))) = take 2 (drop 4 bs)"
    "le_bytes 2 (le_uint (take 2 (drop 6 bs))) = take 2 (drop 6 bs)"
    "le_bytes 2 (le_uint (take 2 (drop 8 bs))) = take 2 (drop 8 bs)"
    using le_bytes_take [of 0 2 bs] le_bytes_take [of 2 2 bs] le_bytes_take [of 4 2 bs]
      le_bytes_take [of 6 2 bs] le_bytes_take [of 8 2 bs] assms(1) by simp_all
  have e: "\<And>k. take 2 (drop k bs) @ drop (k + 2) bs = drop k bs"
    using append_take_drop_id [of 2 "drop _ bs"] by (simp add: add.commute)
  have "take 2 bs @ take 2 (drop 2 bs) @ take 2 (drop 4 bs) @ take 2 (drop 6 bs)
      @ drop 8 bs = bs"
    using e [of 0] e [of 2] e [of 4] e [of 6] by simp
  moreover have "take 2 (drop 8 bs) = drop 8 bs" using assms(1) by simp
  ultimately have "take 2 bs @ take 2 (drop 2 bs) @ take 2 (drop 4 bs) @ take 2 (drop 6 bs)
      @ take 2 (drop 8 bs) = bs"
    by simp
  then show ?thesis by (simp add: r encode_XMOD_def f)
qed

lemma XBAG_decodes: "length bs = 4 \<Longrightarrow> \<exists>r. init XBAG (unpack_fields (format XBAG) bs) = Inr r"
  by (simp add: XBAG_def)

lemma XMOD_decodes: "length bs = 10 \<Longrightarrow> \<exists>r. init XMOD (unpack_fields (format XMOD) bs) = Inr r"
  by (simp add: XMOD_def)

lemma XGEN_decodes: "length bs = 4 \<Longrightarrow> \<exists>r. init XGEN (unpack_fields (format XGEN) bs) = Inr r"
  by (simp add: XGEN_def)

lemma calcsize_numeric:
  "calcsize (format XBAG) = 4" "calcsize (format XMOD) = 10" "calcsize (format XGEN) = 4"
  by (simp_all add: XBAG_def XMOD_def XGEN_def calcsize_def)

lemma calcsize_named:
  "calcsize (format PHDR) = 38" "calcsize (format INST) = 22" "calcsize (format SHDR) = 46"
  by (simp_all add: PHDR_def INST_def SHDR_def calcsize_def)

lemma numeric_roundtrip:
  assumes W: "calcsize (format rc) = W" "0 < W" and L: "length data mod W = 0"
    and dec: "\<forall>bs. length bs = W \<longrightarrow> (\<exists>r. init rc (unpack_fields (format rc) bs) = Inr r)"
    and enc: "\<forall>bs r. length bs = W \<and> init rc (unpack_fields (format rc) bs) = Inr r \<longrightarrow> enc r = bs"
  shows "\<exists>c. parse (ChunkParser_init rc) data (int (length data)) = Inr c
           \<and> length (records c) = length data div W - 1
           \<and> concat (map enc (records c)) = take (length data - W) data"
proof -
  from parse_succeeds [OF W refl dec] obtain c where
    c: "parse (ChunkParser_init rc) data (int (length data)) = Inr c" by blast
  have "length data div W * W = length data" using L by auto
  with reencode [OF W refl c enc] parse_records(1) [OF W refl c] c show ?thesis by simp
qed

lemma XBAG_roundtrip:
  assumes "length d mod 4 = 0"
  shows "\<exists>c. parse (ChunkParser_init XBAG) d (int (length d)) = Inr c
           \<and> length (records c) = length d div 4 - 1
           \<and> concat (map encode_XBAG (records c)) = take (length d - 4) d"
proof (rule numeric_roundtrip)
  show "calcsize (format XBAG) = 4" by (simp add: calcsize_numeric)
  show "0 < (4::nat)" by simp
  show "length d mod 4 = 0" by fact
  show "\<forall>bs. length bs = 4 \<longrightarrow> (\<exists>r. init XBAG (unpack_fields (format XBAG) bs) = Inr r)"
    using XBAG_decodes by blast
  show "\<forall>bs r. length bs = 4 \<and> init XBAG (unpack_fields (format XBAG) bs) = Inr r
          \<longrightarrow> encode_XBAG r = bs"
    using encode_XBAG_inverse by blast
qed

lemma XGEN_roundtrip:
  assumes "length d mod 4 = 0"
  shows "\<exists>c. parse (ChunkParser_init XGEN) d (int (length d)) = Inr c
           \<and> length (records c) = length d div 4 - 1
           \<and> concat (map encode_XGEN (records c)) = take (length d - 4) d"
proof (rule numeric_roundtrip)
  show "calcsize (format XGEN) = 4" by (simp add: calcsize_numeric)
  show "0 < (4::nat)" by simp
  show "length d mod 4 = 0" by fact
  show "\<forall>bs. length bs = 4 \<longrightarrow> (\<exists>r. init XGEN (unpack_fields (format XGEN) bs) = Inr r)"
    using XGEN_decodes by blast
  show "\<forall>bs r. length bs = 4 \<and> init XGEN (unpack_fields (format XGEN) bs) = Inr r
          \<longrightarrow> encode_XGEN r = bs"
    using encode_XGEN_inverse by blast
qed

lemma XMOD_roundtrip:
  assumes "length d mod 10 = 0"
  shows "\<exists>c. parse (ChunkParser_init XMOD) d (int (length d)) = Inr c
           \<and> length (records c) = length d div 10 - 1
           \<and> concat (map encode_XMOD (records c)) = take (length d - 10) d"
proof (rule numeric_roundtrip)
  show "calcsize (format XMOD) = 10" by (simp add: calcsize_numeric)
  show "0 < (10::nat)" by simp
  show "length d mod 10 = 0" by fact
  show "\<forall>bs. length bs = 10 \<longrightarrow> (\<exists>r. init XMOD (unpack_fields (format XMOD) bs) = Inr r)"
    using XMOD_decodes by blast
  show "\<forall>bs r. length bs = 10 \<and> init XMOD (unpack_fields (format XMOD) bs) = Inr r
          \<longrightarrow> encode_XMOD r = bs"
    using encode_XMOD_inverse by blast
qed

subsection \<open>Chunks of a whole number of records\<close>

text \<open>
  Claim C2, as amended. For a chunk of \<open>L\<close> bytes and a record width \<open>W\<close> that divides \<open>L\<close>:
  when the decoder returns, it returns \<open>L / W - 1\<close> records (none when \<open>L = 0\<close>), the
  \<open>i\<close>-th decoded from the bytes \<open>[i * W, (i + 1) * W)\<close>; when it fails, the exception is the
  one of decoding one of these records; the last \<open>W\<close> bytes, the sentinel, are never
  decoded and have no influence on the result. Re-encoding the returned records with any
  encoder that inverts the decoding of one record gives the first \<open>L - W\<close> bytes of the
  chunk, and the bytes of the sentinel are not recovered. For zone, modulator and generator
  records the decoder always returns and \<open>encode_XBAG\<close>, \<open>encode_XMOD\<close>, \<open>encode_XGEN\<close>
  are such encoders.
\<close>

theorem parse_exact_multiple:
  "(calcsize (format rc) = W \<and> 0 < W \<and> length data = L \<and> L mod W = 0 \<longrightarrow>
      (\<forall>c. parse (ChunkParser_init rc) data (int L) = Inr c \<longrightarrow>
          int (length (records c)) = (if L = 0 then 0 else int L div int W - 1)
          \<and> (\<forall>i < length (records c).
                init rc (unpack_fields (format rc) (take W (drop (i * W) data)))
                  = Inr (records c ! i))
          \<and> (\<forall>enc. (\<forall>bs r. length bs = W \<and> init rc (unpack_fields (format rc) bs) = Inr r
                        \<longrightarrow> enc r = bs)
                \<longrightarrow> concat (map enc (records c)) = take (L - W) data))
      \<and> (\<forall>e. parse (ChunkParser_init rc) data (int L) = Inl e \<longrightarrow>
            (\<exists>i. int i < int L div int W - 1
               \<and> init rc (unpack_fields (format rc) (take W (drop (i * W) data))) = Inl e))
      \<and> (\<forall>data'. take (L - W) data' = take (L - W) data \<longrightarrow>
            parse (ChunkParser_init rc) data' (int L) = parse (ChunkParser_init rc) data (int L)))
   \<and> (length d mod 4 = 0 \<longrightarrow>
        (\<exists>c. parse (ChunkParser_init XBAG) d (int (length d)) = Inr c
           \<and> length (records c) = length d div 4 - 1
           \<and> concat (map encode_XBAG (records c)) = take (length d - 4) d)
        \<and> (\<exists>c. parse (ChunkParser_init XGEN) d (int (length d)) = Inr c
           \<and> length (records c) = length d div 4 - 1
           \<and> concat (map encode_XGEN (records c)) = take (length d - 4) d))
   \<and> (length d mod 10 = 0 \<longrightarrow>
        (\<exists>c. parse (ChunkParser_init XMOD) d (int (length d)) = Inr c
           \<and> length (records c) = length d div 10 - 1
           \<and> concat (map encode_XMOD (records c)) = take (length d - 10) d))"
proof (intro conjI impI allI)
  fix c
  assume h: "calcsize (format rc) = W \<and> 0 < W \<and> length data = L \<and> L mod W = 0"
    and c: "parse (ChunkParser_init rc) data (int L) = Inr c"
  then have W: "calcsize (format rc) = W" "0 < W" and L: "length data = L" by auto
  have full: "L div W * W = L" using h by auto
  have len: "length (records c) = L div W - 1" by (rule parse_records(1) [OF W L c])
  show "int (length (records c)) = (if L = 0 then 0 else int L div int W - 1)"
  proof (cases "L = 0")
    case True
    then show ?thesis using len by simp
  next
    case False
    then have "1 \<le> L div W" using full by (metis One_nat_def Suc_leI mult_is_0 neq0_conv)
    then show ?thesis using len False by (simp add: zdiv_int of_nat_diff)
  qed
  show "\<And>i. i < length (records c) \<Longrightarrow>
     init rc (unpack_fields (format rc) (take W (drop (i * W) data))) = Inr (records c ! i)"
    using parse_records(2) [OF W L c] len by simp
  show "\<And>enc. \<forall>bs r. length bs = W \<and> init rc (unpack_fields (format rc) bs) = Inr r
                        \<longrightarrow> enc r = bs
        \<Longrightarrow> concat (map enc (records c)) = take (L - W) data"
    using reencode [OF W L c] full by simp
next
  fix e
  assume h: "calcsize (format rc) = W \<and> 0 < W \<and> length data = L \<and> L mod W = 0"
    and e: "parse (ChunkParser_init rc) data (int L) = Inl e"
  then have W: "calcsize (format rc) = W" "0 < W" and L: "length data = L" by auto
  from parse_fails [OF W L e] obtain i where i: "i < L div W - 1"
    and d: "init rc (unpack_fields (format rc) (take W (drop (i * W) data))) = Inl e" by blast
  from i have "Suc i < L div W" by simp
  then have "int (Suc i) < int (L div W)" by (simp only: of_nat_less_iff)
  then have "int i < int L div int W - 1" by (simp add: zdiv_int)
  with d show "\<exists>i. int i < int L div int W - 1
               \<and> init rc (unpack_fields (format rc) (take W (drop (i * W) data))) = Inl e"
    by blast
next
  fix data'
  assume h: "calcsize (format rc) = W \<and> 0 < W \<and> length data = L \<and> L mod W = 0"
    and eq: "take (L - W) data' = take (L - W) data"
  then have W: "calcsize (format rc) = W" "0 < W" by auto
  have "L div W * W - W \<le> L - W" by (simp add: diff_le_mono)
  from parse_prefix [OF W this eq]
  show "parse (ChunkParser_init rc) data' (int L) = parse (ChunkParser_init rc) data (int L)" .
next
  assume "length d mod 4 = 0"
  then show "\<exists>c. parse (ChunkParser_init XBAG) d (int (length d)) = Inr c
           \<and> length (records c) = length d div 4 - 1
           \<and> concat (map encode_XBAG (records c)) = take (length d - 4) d"
    by (rule XBAG_roundtrip)
next
  assume "length d mod 4 = 0"
  then show "\<exists>c. parse (ChunkParser_init XGEN) d (int (length d)) = Inr c
           \<and> length (records c) = length d div 4 - 1
           \<and> concat (map encode_XGEN (records c)) = take (length d - 4) d"
    by (rule XGEN_roundtrip)
next
  assume "length d mod 10 = 0"
  then show "\<exists>c. parse (ChunkParser_init XMOD) d (int (length d)) = Inr c
           \<and> length (records c) = length d div 10 - 1
           \<and> concat (map encode_XMOD (records c)) = take (length d - 10) d"
    by (rule XMOD_roundtrip)
qed

theorem parse_exact_multiple_witness:
  "calcsize (format XGEN) = 4 \<and> length [1, 0, 2, 0, 3, 0, 4, 0 :: byte] = 8 \<and> (8 :: nat) mod 4 = 0
   \<and> (\<exists>c. parse (ChunkParser_init XGEN) [1, 0, 2, 0, 3, 0, 4, 0] 8 = Inr c
         \<and> int (length (records c)) = 8 div 4 - 1
         \<and> init XGEN (unpack_fields (format XGEN) [1, 0, 2, 0]) = Inr (records c ! 0)
         \<and> concat (map encode_XGEN (records c)) = [1, 0, 2, 0])
   \<and> parse (ChunkParser_init XGEN) [1, 0, 2, 0, 9, 9, 9, 9] 8
       = parse (ChunkParser_init XGEN) [1, 0, 2, 0, 3, 0, 4, 0] 8"
proof -
  let ?d = "[1, 0, 2, 0, 3, 0, 4, 0 :: byte]"
  have h: "calcsize (format XGEN) = 4 \<and> 0 < (4::nat) \<and> length ?d = 8 \<and> (8::nat) mod 4 = 0"
    by (simp add: calcsize_numeric)
  have m: "length ?d mod 4 = 0" by simp
  note T = parse_exact_multiple [of XGEN 4 ?d 8 ?d]
  note G = T [THEN conjunct1, THEN mp, OF h]
  note D = T [THEN conjunct2, THEN conjunct1, THEN mp, OF m, THEN conjunct2]
  from D obtain c where c: "parse (ChunkParser_init XGEN) ?d (int (length ?d)) = Inr c"
    and enc: "concat (map encode_XGEN (records c)) = take (length ?d - 4) ?d"
    by (elim exE conjE)
  from c have c8: "parse (ChunkParser_init XGEN) ?d (int 8) = Inr c" by simp
  note R = G [THEN conjunct1, THEN spec, THEN mp, OF c8]
  from R have len: "int (length (records c)) = (if (8::nat) = 0 then 0 else int 8 div int 4 - 1)"
    by (rule conjunct1)
  from R have each: "\<forall>i < length (records c).
        init XGEN (unpack_fields (format XGEN) (take 4 (drop (i * 4) ?d))) = Inr (records c ! i)"
    by (elim conjE)
  from len have len1: "length (records c) = 1" by simp
  have r0: "init XGEN (unpack_fields (format XGEN) [1, 0, 2, 0]) = Inr (records c ! 0)"
    using each [rule_format, of 0] len1 by simp
  note S = G [THEN conjunct2, THEN conjunct2, THEN spec, of "[1, 0, 2, 0, 9, 9, 9, 9]"]
  from S have s: "parse (ChunkParser_init XGEN) [1, 0, 2, 0, 9, 9, 9, 9] (int 8)
      = parse (ChunkParser_init XGEN) ?d (int 8)"
    by simp
  from enc have enc': "concat (map encode_XGEN (records c)) = [1, 0, 2, 0]" by simp
  from len1 have len': "int (length (records c)) = 8 div 4 - 1" by simp
  have "\<exists>c. parse (ChunkParser_init XGEN) ?d 8 = Inr c
         \<and> int (length (records c)) = 8 div 4 - 1
         \<and> init XGEN (unpack_fields (format XGEN) [1, 0, 2, 0]) = Inr (records c ! 0)
         \<and> concat (map encode_XGEN (records c)) = [1, 0, 2, 0]"
    using c8 len' r0 enc' by (intro exI [of _ c]) simp
  moreover have "parse (ChunkParser_init XGEN) [1, 0, 2, 0, 9, 9, 9, 9] 8
       = parse (ChunkParser_init XGEN) ?d 8"
    using s by simp
  moreover have "calcsize (format XGEN) = 4 \<and> length ?d = 8 \<and> (8 :: nat) mod 4 = 0"
    using h by simp
  ultimately show ?thesis by (intro conjI) simp_all
qed

text \<open>
  The claim as stated is false. A generator chunk of two records whose sentinel is not
  zero decodes to one record, and that record followed by a zero-filled sentinel is not
  the chunk. Two instrument chunks whose names differ in the place of a null byte decode
  to the same record, so no encoder gives back the bytes of a record with a name. The
  empty chunk gives no record where \<open>L / W - 1\<close> is \<open>-1\<close>.
\<close>

theorem parse_roundtrip_counterexample:
  "length [1, 0, 2, 0, 3, 0, 4, 0 :: byte] mod calcsize (format XGEN) = 0
   \<and> map_sum id records (parse (ChunkParser_init XGEN) [1, 0, 2, 0, 3, 0, 4, 0] 8)
       = Inr [\<lparr>gen_oper = 1, gen_amount = 2\<rparr>]
   \<and> concat (map encode_XGEN [\<lparr>gen_oper = 1, gen_amount = 2\<rparr>]) @ replicate 4 0
       \<noteq> [1, 0, 2, 0, 3, 0, 4, 0]
   \<and> map_sum id records (parse (ChunkParser_init INST)
         ([0, 65] @ replicate 18 0 @ [7, 0] @ replicate 22 0) 44)
       = Inr [\<lparr>inst_name = [65], inst_bag_ndx = 7\<rparr>]
   \<and> map_sum id records (parse (ChunkParser_init INST)
         ([65] @ replicate 19 0 @ [7, 0] @ replicate 22 0) 44)
       = Inr [\<lparr>inst_name = [65], inst_bag_ndx = 7\<rparr>]
   \<and> map_sum id records (parse (ChunkParser_init XGEN) [] 0) = Inr []
   \<and> int (length ([] :: byte list)) div int (calcsize (format XGEN)) - 1 = - 1"
  by code_simp

subsection \<open>Chunks with a partial record at the end\<close>

text \<open>
  Claim C3, as amended. The decoder has no check of the length. For a chunk of \<open>L\<close> bytes
  where \<open>W\<close> does not divide \<open>L\<close>, it gives what it gives on the chunk cut to
  \<open>(L div W) * W\<close> bytes: when it returns, \<open>L div W - 1\<close> records (none below two
  widths) decoded from the leading slices; an exception can only be the one of decoding
  one of these records, and where decoding a record cannot fail the decoder returns.
\<close>

theorem parse_inexact_length:
  "calcsize (format rc) = W \<and> 0 < W \<and> length data = L \<and> L mod W \<noteq> 0 \<longrightarrow>
     parse (ChunkParser_init rc) data (int L)
       = parse (ChunkParser_init rc) (take (L div W * W) data) (int (L div W * W))
     \<and> (\<forall>c. parse (ChunkParser_init rc) data (int L) = Inr c \<longrightarrow>
           length (records c) = L div W - 1
           \<and> (\<forall>i < length (records c).
                 init rc (unpack_fields (format rc) (take W (drop (i * W) data)))
                   = Inr (records c ! i)))
     \<and> (\<forall>e. parse (ChunkParser_init rc) data (int L) = Inl e \<longrightarrow>
           (\<exists>i < L div W - 1.
              init rc (unpack_fields (format rc) (take W (drop (i * W) data))) = Inl e))
     \<and> ((\<forall>bs. length bs = W \<longrightarrow> (\<exists>r. init rc (unpack_fields (format rc) bs) = Inr r)) \<longrightarrow>
           (\<exists>c. parse (ChunkParser_init rc) data (int L) = Inr c))"
proof (intro impI)
  assume h: "calcsize (format rc) = W \<and> 0 < W \<and> length data = L \<and> L mod W \<noteq> 0"
  then have W: "calcsize (format rc) = W" "0 < W" and L: "length data = L" by auto
  let ?M = "L div W * W"
  have "?M - W \<le> ?M" by simp
  from parse_prefix [OF W this, of "take ?M data" data]
  have "parse (ChunkParser_init rc) (take ?M data) (int L) = parse (ChunkParser_init rc) data (int L)"
    by simp
  moreover have "parse (ChunkParser_init rc) (take ?M data) (int ?M)
      = parse (ChunkParser_init rc) (take ?M data) (int L)"
    using W parse_init [of rc "take ?M data" ?M] parse_init [of rc "take ?M data" L]
    by (simp del: of_nat_mult)
  ultimately have trunc: "parse (ChunkParser_init rc) data (int L)
       = parse (ChunkParser_init rc) (take ?M data) (int ?M)"
    by simp
  have recs: "\<forall>c. parse (ChunkParser_init rc) data (int L) = Inr c \<longrightarrow>
           length (records c) = L div W - 1
           \<and> (\<forall>i < length (records c).
                 init rc (unpack_fields (format rc) (take W (drop (i * W) data)))
                   = Inr (records c ! i))"
    using parse_records [OF W L] by simp
  have errs: "\<forall>e. parse (ChunkParser_init rc) data (int L) = Inl e \<longrightarrow>
           (\<exists>i < L div W - 1.
              init rc (unpack_fields (format rc) (take W (drop (i * W) data))) = Inl e)"
    using parse_fails [OF W L] by blast
  have tot: "(\<forall>bs. length bs = W \<longrightarrow> (\<exists>r. init rc (unpack_fields (format rc) bs) = Inr r)) \<longrightarrow>
           (\<exists>c. parse (ChunkParser_init rc) data (int L) = Inr c)"
    using parse_succeeds [OF W L] by blast
  from trunc recs errs tot show
    "parse (ChunkParser_init rc) data (int L)
       = parse (ChunkParser_init rc) (take (L div W * W) data) (int (L div W * W))
     \<and> (\<forall>c. parse (ChunkParser_init rc) data (int L) = Inr c \<longrightarrow>
           length (records c) = L div W - 1
           \<and> (\<forall>i < length (records c).
                 init rc (unpack_fields (format rc) (take W (drop (i * W) data)))
                   = Inr (records c ! i)))
     \<and> (\<forall>e. parse (ChunkParser_init rc) data (int L) = Inl e \<longrightarrow>
           (\<exists>i < L div W - 1.
              init rc (unpack_fields (format rc) (take W (drop (i * W) data))) = Inl e))
     \<and> ((\<forall>bs. length bs = W \<longrightarrow> (\<exists>r. init rc (unpack_fields (format rc) bs) = Inr r)) \<longrightarrow>
           (\<exists>c. parse (ChunkParser_init rc) data (int L) = Inr c))"
    by (intro conjI)
qed

theorem parse_inexact_length_witness:
  "calcsize (format XGEN) = 4 \<and> length [1, 0, 2, 0, 3, 0, 4, 0, 9 :: byte] = 9 \<and> (9 :: nat) mod 4 \<noteq> 0
   \<and> parse (ChunkParser_init XGEN) [1, 0, 2, 0, 3, 0, 4, 0, 9] 9
       = parse (ChunkParser_init XGEN) [1, 0, 2, 0, 3, 0, 4, 0] 8
   \<and> (\<exists>c. parse (ChunkParser_init XGEN) [1, 0, 2, 0, 3, 0, 4, 0, 9] 9 = Inr c
         \<and> length (records c) = 1
         \<and> init XGEN (unpack_fields (format XGEN) [1, 0, 2, 0]) = Inr (records c ! 0))"
proof -
  let ?d = "[1, 0, 2, 0, 3, 0, 4, 0, 9 :: byte]"
  have h: "calcsize (format XGEN) = 4 \<and> 0 < (4::nat) \<and> length ?d = 9 \<and> (9::nat) mod 4 \<noteq> 0"
    by (simp add: calcsize_numeric)
  note T = parse_inexact_length [of XGEN 4 ?d 9, rule_format, OF h]
  from T XGEN_decodes obtain c where c: "parse (ChunkParser_init XGEN) ?d (int 9) = Inr c"
    by blast
  with T have len: "length (records c) = 9 div 4 - 1"
    and each: "\<forall>i < length (records c).
        init XGEN (unpack_fields (format XGEN) (take 4 (drop (i * 4) ?d))) = Inr (records c ! i)"
    by blast+
  from len have len1: "length (records c) = 1" by simp
  have r0: "init XGEN (unpack_fields (format XGEN) [1, 0, 2, 0]) = Inr (records c ! 0)"
    using each [rule_format, of 0] len1 by simp
  from T have "parse (ChunkParser_init XGEN) ?d (int 9)
       = parse (ChunkParser_init XGEN) (take (9 div 4 * 4) ?d) (int (9 div 4 * 4))"
    by blast
  then have "parse (ChunkParser_init XGEN) ?d 9 = parse (ChunkParser_init XGEN) [1, 0, 2, 0, 3, 0, 4, 0] 8"
    by simp
  with h c len1 r0 show ?thesis by simp
qed

text \<open>
  The claim as stated is false: a generator chunk of nine bytes is decoded to one record
  and no exception is raised.
\<close>

theorem parse_inexact_counterexample:
  "length [1, 0, 2, 0, 3, 0, 4, 0, 9 :: byte] mod calcsize (format XGEN) \<noteq> 0
   \<and> map_sum id records (parse (ChunkParser_init XGEN) [1, 0, 2, 0, 3, 0, 4, 0, 9] 9)
       = Inr [\<lparr>gen_oper = 1, gen_amount = 2\<rparr>]"
  by code_simp

section \<open>The hierarchy resolver\<close>

subsection \<open>The iterations of \<open>process\<close>\<close>

lemma Min_insert_absorb:
  fixes a r :: int
  assumes "finite B" and "a \<in> B" and "a \<le> r"
  shows "Min (insert r B) = Min B"
proof -
  have le: "Min B \<le> a" using assms(1,2) by (rule Min_le)
  have ne: "B \<noteq> {}" using assms(2) by auto
  have "Min (insert r B) = min r (Min B)" by (rule Min_insert [OF assms(1) ne])
  also have "\<dots> = Min B" using le assms(3) by (simp add: min_def)
  finally show ?thesis .
qed

lemma next_bag_loop_Min:
  "next_bag_loop recs z res =
     (let later = filter (\<lambda>n. z < n) (map bag_ndx recs)
      in case res of
           None \<Rightarrow> if later = [] then None else Some (Min (set later))
         | Some r \<Rightarrow> Some (Min (insert r (set later))))"
proof (induction recs arbitrary: res)
  case Nil
  then show ?case by (simp split: option.splits)
next
  case (Cons rec recs)
  let ?l = "filter (\<lambda>n. z < n) (map bag_ndx recs)"
  have fin: "finite (set ?l)" by simp
  show ?case
  proof (cases "z < bag_ndx rec")
    case False
    then show ?thesis using Cons.IH [of res] by (simp add: Let_def)
  next
    case True
    show ?thesis
    proof (cases res)
      case None
      with True show ?thesis
        using Cons.IH [of "Some (bag_ndx rec)"] by (simp add: Let_def)
    next
      case (Some r)
      show ?thesis
      proof (cases "bag_ndx rec < r")
        case lt: True
        have "Min (insert r (insert (bag_ndx rec) (set ?l))) = Min (insert (bag_ndx rec) (set ?l))"
          by (rule Min_insert_absorb [of "insert (bag_ndx rec) (set ?l)" "bag_ndx rec" r])
            (use lt in simp_all)
        with True Some lt show ?thesis
          using Cons.IH [of "Some (bag_ndx rec)"] by (simp add: Let_def)
      next
        case ge: False
        have "insert r (insert (bag_ndx rec) (set ?l)) = insert (bag_ndx rec) (insert r (set ?l))"
          by (rule insert_commute)
        also have "Min \<dots> = Min (insert r (set ?l))"
          by (rule Min_insert_absorb [of "insert r (set ?l)" r "bag_ndx rec"])
            (use ge in simp_all)
        finally have "Min (insert r (insert (bag_ndx rec) (set ?l))) = Min (insert r (set ?l))" .
        with True Some ge show ?thesis
          using Cons.IH [of "Some r"] by (simp add: Let_def)
      qed
    qed
  qed
qed

lemma next_gen_loop_Min:
  "next_gen_loop recs z res =
     (let later = filter (\<lambda>n. z < n) (map gen_ndx recs)
      in case res of
           None \<Rightarrow> if later = [] then None else Some (Min (set later))
         | Some r \<Rightarrow> Some (Min (insert r (set later))))"
proof (induction recs arbitrary: res)
  case Nil
  then show ?case by (simp split: option.splits)
next
  case (Cons rec recs)
  let ?l = "filter (\<lambda>n. z < n) (map gen_ndx recs)"
  have fin: "finite (set ?l)" by simp
  show ?case
  proof (cases "z < gen_ndx rec")
    case False
    then show ?thesis using Cons.IH [of res] by (simp add: Let_def)
  next
    case True
    show ?thesis
    proof (cases res)
      case None
      with True show ?thesis
        using Cons.IH [of "Some (gen_ndx rec)"] by (simp add: Let_def)
    next
      case (Some r)
      show ?thesis
      proof (cases "gen_ndx rec < r")
        case lt: True
        have "Min (insert r (insert (gen_ndx rec) (set ?l))) = Min (insert (gen_ndx rec) (set ?l))"
          by (rule Min_insert_absorb [of "insert (gen_ndx rec) (set ?l)" "gen_ndx rec" r])
            (use lt in simp_all)
        with True Some lt show ?thesis
          using Cons.IH [of "Some (gen_ndx rec)"] by (simp add: Let_def)
      next
        case ge: False
        have "insert r (insert (gen_ndx rec) (set ?l)) = insert (gen_ndx rec) (insert r (set ?l))"
          by (rule insert_commute)
        also have "Min \<dots> = Min (insert r (set ?l))"
          by (rule Min_insert_absorb [of "insert r (set ?l)" r "gen_ndx rec"])
            (use ge in simp_all)
        finally have "Min (insert r (insert (gen_ndx rec) (set ?l))) = Min (insert r (set ?l))" .
        with True Some ge show ?thesis
          using Cons.IH [of "Some r"] by (simp add: Let_def)
      qed
    qed
  qed
qed

lemma zones_spec:
  "(case next_bag (phdr s) z of
      None \<Rightarrow> int (length (records (pbag s))) - z
    | Some nxt \<Rightarrow> nxt - z) = spec_zones s z"
  by (simp add: next_bag_def next_bag_loop_Min spec_zones_def Let_def)

lemma gens_spec:
  "(case next_gen (pbag s) g of
      None \<Rightarrow> int (length (records (pgen s))) - g
    | Some nxt \<Rightarrow> nxt - g) = spec_gens s g"
  by (simp add: next_gen_def next_gen_loop_Min spec_gens_def Let_def)

lemma first_occurrences_snoc:
  "first_occurrences (xs @ [x]) =
     (if x \<in> set xs then first_occurrences xs else first_occurrences xs @ [x])"
  by (simp add: first_occurrences_def)

lemma set_first_occurrences [simp]: "set (first_occurrences xs) = set xs"
  by (simp add: first_occurrences_def)

lemma distinct_first_occurrences [simp]: "distinct (first_occurrences xs)"
  by (simp add: first_occurrences_def)

lemma gen_loop_refs:
  "gen_loop s idxs (first_occurrences pre) = Inr res \<Longrightarrow>
     res = first_occurrences (pre @ concat (map (gen_ref s) idxs))"
proof (induction idxs arbitrary: pre)
  case Nil
  then show ?case by simp
next
  case (Cons gi idxs)
  from Cons.prems obtain g where g: "py_index (records (pgen s)) gi = Inr g"
    by (auto split: sum.splits)
  show ?case
  proof (cases "gen_oper g = 41")
    case False
    with g Cons.prems have "gen_loop s idxs (first_occurrences pre) = Inr res" by simp
    from Cons.IH [OF this] g False show ?thesis by (simp add: gen_ref_def)
  next
    case True
    with g Cons.prems obtain ins where ins: "py_index (records (inst s)) (gen_amount g) = Inr ins"
      by (auto split: sum.splits)
    have ref: "gen_ref s gi = [inst_name ins]" using g True ins by (simp add: gen_ref_def)
    from g True ins Cons.prems
    have "gen_loop s idxs (first_occurrences (pre @ [inst_name ins])) = Inr res"
      by (simp add: first_occurrences_snoc split: if_splits)
    from Cons.IH [OF this] ref show ?thesis by simp
  qed
qed

lemma bag_loop_refs:
  "bag_loop s idxs (first_occurrences pre) = Inr res \<Longrightarrow>
     res = first_occurrences (pre @ concat (map (zone_refs s) idxs))"
proof (induction idxs arbitrary: pre)
  case Nil
  then show ?case by simp
next
  case (Cons bi idxs)
  from Cons.prems obtain bag where bag: "py_index (records (pbag s)) bi = Inr bag"
    by (auto split: sum.splits)
  let ?gs = "py_range (gen_ndx bag) (gen_ndx bag + spec_gens s (gen_ndx bag))"
  from bag Cons.prems obtain mid where mid: "gen_loop s ?gs (first_occurrences pre) = Inr mid"
    and rest: "bag_loop s idxs mid = Inr res"
    by (auto simp: gens_spec Let_def split: sum.splits)
  from gen_loop_refs [OF mid] have m: "mid = first_occurrences (pre @ concat (map (gen_ref s) ?gs))" .
  have z: "zone_refs s bi = concat (map (gen_ref s) ?gs)" using bag by (simp add: zone_refs_def)
  from rest m have "bag_loop s idxs (first_occurrences (pre @ zone_refs s bi)) = Inr res"
    by (simp add: z)
  from Cons.IH [OF this] show ?case by simp
qed

lemma bag_loop_preset:
  "bag_loop s (py_range (bag_ndx r) (bag_ndx r + spec_zones s (bag_ndx r))) [] = Inr res \<Longrightarrow>
     res = first_occurrences (preset_refs s r)"
  using bag_loop_refs [of s _ "[]" res] by (simp add: preset_refs_def first_occurrences_def)

lemma map_of_banks_append:
  "map_of (banks_append banks b e) b' =
     (if b' = b then map_option (\<lambda>es. es @ [e]) (map_of banks b) else map_of banks b')"
  by (induction banks) (auto simp: banks_append_def)

lemma keys_banks_append [simp]: "map fst (banks_append banks b e) = map fst banks"
  by (induction banks) (auto simp: banks_append_def)

lemma bank_entries_append:
  "b \<in> fst ` set banks \<Longrightarrow>
     bank_entries (banks_append banks b e) b' =
       bank_entries banks b' @ (if b' = b then [e] else [])"
proof -
  assume "b \<in> fst ` set banks"
  then obtain es where "map_of banks b = Some es"
    by (metis domD dom_map_of_conv_image_fst)
  then show ?thesis by (simp add: bank_entries_def map_of_banks_append)
qed

lemma bank_entries_new:
  "b \<notin> fst ` set banks \<Longrightarrow> bank_entries (banks @ [(b, [])]) b' = bank_entries banks b'"
proof -
  assume "b \<notin> fst ` set banks"
  then have "map_of banks b = None" by (simp add: map_of_eq_None_iff)
  then show ?thesis
    by (cases "map_of banks b'") (auto simp: bank_entries_def map_add_def split: option.splits)
qed

lemma preset_loop_entries:
  "preset_loop s recs banks = Inr banks' \<Longrightarrow> distinct (map fst banks) \<Longrightarrow>
     distinct (map fst banks')
     \<and> (\<forall>b. bank_entries banks' b =
            bank_entries banks b @ map (spec_entry s) (filter (\<lambda>r. bank r = b) recs))"
proof (induction recs arbitrary: banks)
  case Nil
  then show ?case by simp
next
  case (Cons rec recs)
  let ?b = "bank rec"
  let ?banks1 = "if ?b \<notin> fst ` set banks then banks @ [(?b, [])] else banks"
  let ?zs = "spec_zones s (bag_ndx rec)"
  from Cons.prems(1) obtain ins where
    ins: "bag_loop s (py_range (bag_ndx rec) (bag_ndx rec + ?zs)) [] = Inr ins"
    and rest: "preset_loop s recs
        (banks_append ?banks1 ?b
          \<lparr>entry_preset = preset rec, name = preset_name rec, entry_bag_ndx = bag_ndx rec,
           zones = ?zs, instruments = ins\<rparr>) = Inr banks'"
    by (auto simp: zones_spec Let_def split: sum.splits)
  from bag_loop_preset [OF ins] have e: "\<lparr>entry_preset = preset rec, name = preset_name rec,
      entry_bag_ndx = bag_ndx rec, zones = ?zs, instruments = ins\<rparr> = spec_entry s rec"
    by (simp add: spec_entry_def)
  have d1: "distinct (map fst ?banks1)" using Cons.prems(2) by auto
  have in1: "?b \<in> fst ` set ?banks1" by auto
  have e1: "\<And>b. bank_entries ?banks1 b = bank_entries banks b"
    using bank_entries_new [of ?b banks] by simp
  from rest e have rest': "preset_loop s recs (banks_append ?banks1 ?b (spec_entry s rec)) = Inr banks'"
    by simp
  have d2: "distinct (map fst (banks_append ?banks1 ?b (spec_entry s rec)))"
    using d1 by (simp only: keys_banks_append)
  from Cons.IH [OF rest' d2] have dist: "distinct (map fst banks')"
    and all: "\<And>b. bank_entries banks' b =
        bank_entries (banks_append ?banks1 ?b (spec_entry s rec)) b
          @ map (spec_entry s) (filter (\<lambda>r. bank r = b) recs)"
    by auto
  have "\<And>b. bank_entries banks' b =
      bank_entries banks b @ map (spec_entry s) (filter (\<lambda>r. bank r = b) (rec # recs))"
  proof -
    fix b
    have "bank_entries (banks_append ?banks1 ?b (spec_entry s rec)) b =
        bank_entries banks b @ (if b = ?b then [spec_entry s rec] else [])"
      using bank_entries_append [OF in1, of "spec_entry s rec" b] e1 [of b] by simp
    with all [of b] show "bank_entries banks' b =
      bank_entries banks b @ map (spec_entry s) (filter (\<lambda>r. bank r = b) (rec # recs))"
      by auto
  qed
  with dist show ?case by blast
qed

lemma spec_zones_sorted:
  "spec_zones (s\<lparr>phdr := (phdr s)\<lparr>records := sort_key bank (records (phdr s))\<rparr>\<rparr>) z = spec_zones s z"
proof -
  let ?l' = "filter (\<lambda>n. z < n) (map bag_ndx (sort_key bank (records (phdr s))))"
  let ?l = "filter (\<lambda>n. z < n) (map bag_ndx (records (phdr s)))"
  have "set ?l' = set ?l" by simp
  moreover from this have "?l' = [] \<longleftrightarrow> ?l = []" by (metis set_empty)
  ultimately show ?thesis by (simp add: spec_zones_def Let_def)
qed

lemma spec_gens_sorted:
  "spec_gens (s\<lparr>phdr := p\<rparr>) g = spec_gens s g"
  by (simp add: spec_gens_def Let_def)

lemma gen_ref_sorted: "gen_ref (s\<lparr>phdr := p\<rparr>) = gen_ref s"
  by (rule ext) (simp add: gen_ref_def split: sum.splits)

lemma zone_refs_sorted: "zone_refs (s\<lparr>phdr := p\<rparr>) = zone_refs s"
  by (rule ext) (simp add: zone_refs_def spec_gens_sorted gen_ref_sorted split: sum.splits)

lemma spec_entry_sorted:
  "spec_entry (s\<lparr>phdr := (phdr s)\<lparr>records := sort_key bank (records (phdr s))\<rparr>\<rparr>) r = spec_entry s r"
  by (simp add: spec_entry_def preset_refs_def spec_zones_sorted zone_refs_sorted)

lemma process_entries:
  assumes "process s = (s', Inr banks)"
  shows "distinct (map fst banks)"
    and "bank_entries banks b = map (spec_entry s) (filter (\<lambda>r. bank r = b) (records (phdr s)))"
proof -
  let ?s' = "s\<lparr>phdr := (phdr s)\<lparr>records := sort_key bank (records (phdr s))\<rparr>\<rparr>"
  from assms have loop: "preset_loop ?s' (sort_key bank (records (phdr s))) [] = Inr banks"
    by (auto simp: process_def Let_def)
  from preset_loop_entries [OF loop] have d: "distinct (map fst banks)"
    and e: "bank_entries banks b = bank_entries [] b
        @ map (spec_entry ?s') (filter (\<lambda>r. bank r = b) (sort_key bank (records (phdr s))))"
    by auto
  show "distinct (map fst banks)" by (rule d)
  from e show "bank_entries banks b = map (spec_entry s) (filter (\<lambda>r. bank r = b) (records (phdr s)))"
    by (simp add: bank_entries_def sort_key_stable spec_entry_sorted)
qed

lemma process_example: "snd (process example_sf2) = Inr example_banks"
  by code_simp

lemma spec_zones_Min:
  "spec_zones s z =
     (if \<exists>r \<in> set (records (phdr s)). z < bag_ndx r
      then Min {bag_ndx r | r. r \<in> set (records (phdr s)) \<and> z < bag_ndx r} - z
      else int (length (records (pbag s))) - z)"
proof -
  let ?l = "filter (\<lambda>n. z < n) (map bag_ndx (records (phdr s)))"
  have s: "set ?l = {bag_ndx r | r. r \<in> set (records (phdr s)) \<and> z < bag_ndx r}" by auto
  have "?l = [] \<longleftrightarrow> \<not> (\<exists>r \<in> set (records (phdr s)). z < bag_ndx r)"
    by (auto simp: filter_empty_conv)
  then show ?thesis unfolding spec_zones_def Let_def s [symmetric] by simp
qed

lemma distinct_count_one: "distinct xs \<Longrightarrow> x \<in> set xs \<Longrightarrow> count_list xs x = 1"
  by (induction xs) auto

subsection \<open>Zone counts\<close>

text \<open>
  Claim C1. When \<open>process\<close> returns, the entries of each bank are those of the preset
  headers of that bank, in their order, and the entry of a preset header with zone start
  \<open>z\<close> has the zone count \<open>next_z - z\<close>, where \<open>next_z\<close> is the smallest zone start above
  \<open>z\<close> among all preset headers, or the length of the zone array minus \<open>z\<close> when there is
  none; this is so for a preset whose zone start is the largest.
\<close>

theorem process_zone_counts:
  "process s = (s', Inr banks) \<Longrightarrow>
     distinct (map fst banks)
     \<and> (\<forall>b. map (\<lambda>e. (entry_preset e, name e, entry_bag_ndx e, zones e)) (bank_entries banks b)
            = map (\<lambda>r. (preset r, preset_name r, bag_ndx r, spec_zones s (bag_ndx r)))
                (filter (\<lambda>r. bank r = b) (records (phdr s))))
     \<and> (\<forall>z. spec_zones s z =
            (if \<exists>r \<in> set (records (phdr s)). z < bag_ndx r
             then Min {bag_ndx r | r. r \<in> set (records (phdr s)) \<and> z < bag_ndx r} - z
             else int (length (records (pbag s))) - z))
     \<and> (\<forall>r \<in> set (records (phdr s)).
           (\<forall>r' \<in> set (records (phdr s)). bag_ndx r' \<le> bag_ndx r) \<longrightarrow>
           spec_zones s (bag_ndx r) = int (length (records (pbag s))) - bag_ndx r)"
proof -
  assume p: "process s = (s', Inr banks)"
  have a: "distinct (map fst banks)" by (rule process_entries(1) [OF p])
  have b: "\<forall>b. map (\<lambda>e. (entry_preset e, name e, entry_bag_ndx e, zones e)) (bank_entries banks b)
            = map (\<lambda>r. (preset r, preset_name r, bag_ndx r, spec_zones s (bag_ndx r)))
                (filter (\<lambda>r. bank r = b) (records (phdr s)))"
    by (simp add: process_entries(2) [OF p] spec_entry_def o_def)
  have c: "\<forall>z. spec_zones s z =
            (if \<exists>r \<in> set (records (phdr s)). z < bag_ndx r
             then Min {bag_ndx r | r. r \<in> set (records (phdr s)) \<and> z < bag_ndx r} - z
             else int (length (records (pbag s))) - z)"
    using spec_zones_Min by blast
  have d: "\<forall>r \<in> set (records (phdr s)).
           (\<forall>r' \<in> set (records (phdr s)). bag_ndx r' \<le> bag_ndx r) \<longrightarrow>
           spec_zones s (bag_ndx r) = int (length (records (pbag s))) - bag_ndx r"
    by (subst spec_zones_Min) fastforce
  from a b c d show ?thesis by blast
qed

theorem process_zone_counts_witness:
  "process example_sf2 = (fst (process example_sf2), Inr example_banks)
   \<and> map zones (bank_entries example_banks 0) = [2]
   \<and> map zones (bank_entries example_banks 1) = [1]
   \<and> map (\<lambda>e. (entry_preset e, name e, entry_bag_ndx e, zones e)) (bank_entries example_banks 0)
       = [(0, ascii ''A'', 0, 2)]
   \<and> map (\<lambda>e. (entry_preset e, name e, entry_bag_ndx e, zones e)) (bank_entries example_banks 1)
       = [(0, ascii ''B'', 2, int (length (records (pbag example_sf2))) - 2)]"
proof -
  have p: "process example_sf2 = (fst (process example_sf2), Inr example_banks)"
    using process_example by (simp add: prod_eq_iff)
  note T = process_zone_counts [OF p, THEN conjunct2, THEN conjunct1, rule_format]
  have r0: "map (\<lambda>r. (preset r, preset_name r, bag_ndx r, spec_zones example_sf2 (bag_ndx r)))
      (filter (\<lambda>r. bank r = 0) (records (phdr example_sf2))) = [(0, ascii ''A'', 0, 2)]"
    by code_simp
  have r1: "map (\<lambda>r. (preset r, preset_name r, bag_ndx r, spec_zones example_sf2 (bag_ndx r)))
      (filter (\<lambda>r. bank r = 1) (records (phdr example_sf2)))
      = [(0, ascii ''B'', 2, int (length (records (pbag example_sf2))) - 2)]"
    by code_simp
  have e0: "map (\<lambda>e. (entry_preset e, name e, entry_bag_ndx e, zones e)) (bank_entries example_banks 0)
       = [(0, ascii ''A'', 0, 2)]"
    using T [of 0] r0 by simp
  have e1: "map (\<lambda>e. (entry_preset e, name e, entry_bag_ndx e, zones e)) (bank_entries example_banks 1)
       = [(0, ascii ''B'', 2, int (length (records (pbag example_sf2))) - 2)]"
    using T [of 1] r1 by simp
  have l: "int (length (records (pbag example_sf2))) - 2 = 1" by code_simp
  have z0: "map zones (bank_entries example_banks 0) = [2]"
    using arg_cong [OF e0, of "map (\<lambda>(a, b, c, d). d)"] by (simp add: o_def)
  have z1: "map zones (bank_entries example_banks 1) = [1]"
    using arg_cong [OF e1, of "map (\<lambda>(a, b, c, d). d)"] l by (simp add: o_def)
  from p e0 e1 z0 z1 show ?thesis by blast
qed

subsection \<open>Instrument lists\<close>

text \<open>
  Claim C7. When \<open>process\<close> returns, the instrument list of the entry of a preset is the
  list of the instrument names its generators with operator 41 refer to, across its zones
  and their generators, each name kept at its first occurrence: every name referred to is
  in the list exactly once.
\<close>

theorem process_instruments:
  "process s = (s', Inr banks) \<Longrightarrow>
     (\<forall>b. map instruments (bank_entries banks b)
            = map (\<lambda>r. first_occurrences (preset_refs s r))
                (filter (\<lambda>r. bank r = b) (records (phdr s))))
     \<and> (\<forall>b. \<forall>e \<in> set (bank_entries banks b).
            distinct (instruments e)
            \<and> (\<forall>n \<in> set (instruments e). count_list (instruments e) n = 1)
            \<and> (\<exists>r \<in> set (records (phdr s)). bank r = b
                  \<and> set (instruments e) = set (preset_refs s r)))"
proof -
  assume p: "process s = (s', Inr banks)"
  have a: "\<forall>b. map instruments (bank_entries banks b)
            = map (\<lambda>r. first_occurrences (preset_refs s r))
                (filter (\<lambda>r. bank r = b) (records (phdr s)))"
    by (simp add: process_entries(2) [OF p] spec_entry_def o_def)
  have b: "\<forall>b. \<forall>e \<in> set (bank_entries banks b).
            distinct (instruments e)
            \<and> (\<forall>n \<in> set (instruments e). count_list (instruments e) n = 1)
            \<and> (\<exists>r \<in> set (records (phdr s)). bank r = b
                  \<and> set (instruments e) = set (preset_refs s r))"
  proof (intro allI ballI)
    fix b e assume "e \<in> set (bank_entries banks b)"
    then obtain r where r: "r \<in> set (records (phdr s))" "bank r = b" and e: "e = spec_entry s r"
      by (auto simp: process_entries(2) [OF p])
    have i: "instruments e = first_occurrences (preset_refs s r)" using e by (simp add: spec_entry_def)
    then have d: "distinct (instruments e)" by simp
    then have "\<forall>n \<in> set (instruments e). count_list (instruments e) n = 1"
      by (simp add: distinct_count_one)
    with d i r show "distinct (instruments e)
            \<and> (\<forall>n \<in> set (instruments e). count_list (instruments e) n = 1)
            \<and> (\<exists>r \<in> set (records (phdr s)). bank r = b
                  \<and> set (instruments e) = set (preset_refs s r))"
      by auto
  qed
  from a b show ?thesis by blast
qed

theorem process_instruments_witness:
  "process example_sf2 = (fst (process example_sf2), Inr example_banks)
   \<and> preset_refs example_sf2 (records (phdr example_sf2) ! 1) = [ascii ''Piano'', ascii ''Piano'']
   \<and> map instruments (bank_entries example_banks 0) = [ [ascii ''Piano''] ]
   \<and> map instruments (bank_entries example_banks 1) = [ [ascii ''Bass''] ]"
proof -
  have p: "process example_sf2 = (fst (process example_sf2), Inr example_banks)"
    using process_example by (simp add: prod_eq_iff)
  note T = process_instruments [OF p, THEN conjunct1, rule_format]
  have r0: "map (\<lambda>r. first_occurrences (preset_refs example_sf2 r))
      (filter (\<lambda>r. bank r = 0) (records (phdr example_sf2))) = [ [ascii ''Piano''] ]"
    by code_simp
  have r1: "map (\<lambda>r. first_occurrences (preset_refs example_sf2 r))
      (filter (\<lambda>r. bank r = 1) (records (phdr example_sf2))) = [ [ascii ''Bass''] ]"
    by code_simp
  have twice: "preset_refs example_sf2 (records (phdr example_sf2) ! 1)
      = [ascii ''Piano'', ascii ''Piano'']"
    by code_simp
  from p twice T [of 0] T [of 1] r0 r1 show ?thesis by simp
qed

subsection \<open>What \<open>process\<close> changes\<close>

text \<open>
  Claim C4, as amended. \<open>process\<close> changes one of the nine arrays: it sorts the records
  of the preset headers by bank, in place and stably. After it the array has the same
  records as before, as a multiset, in ascending order of the bank and, within a bank, in
  their former order, and it is the array of before exactly when that was sorted by bank.
  The other eight arrays are the ones of before, and no record is changed.
\<close>

theorem process_frame:
  "process s = (s', res) \<Longrightarrow>
     pbag s' = pbag s \<and> pmod s' = pmod s \<and> pgen s' = pgen s \<and> inst s' = inst s
     \<and> ibag s' = ibag s \<and> imod s' = imod s \<and> igen s' = igen s \<and> shdr s' = shdr s
     \<and> rec_class (phdr s') = rec_class (phdr s) \<and> rec_size (phdr s') = rec_size (phdr s)
     \<and> records (phdr s') = sort_key bank (records (phdr s))
     \<and> mset (records (phdr s')) = mset (records (phdr s))
     \<and> sorted (map bank (records (phdr s')))
     \<and> (\<forall>b. filter (\<lambda>r. bank r = b) (records (phdr s'))
            = filter (\<lambda>r. bank r = b) (records (phdr s)))
     \<and> (records (phdr s') = records (phdr s) \<longleftrightarrow> sorted (map bank (records (phdr s))))"
proof -
  assume "process s = (s', res)"
  then have s': "s' = s\<lparr>phdr := (phdr s)\<lparr>records := sort_key bank (records (phdr s))\<rparr>\<rparr>"
    by (auto simp: process_def Let_def)
  have iff: "sort_key bank (records (phdr s)) = records (phdr s)
      \<longleftrightarrow> sorted (map bank (records (phdr s)))"
    by (metis sort_key_id_if_sorted sorted_sort_key)
  show ?thesis unfolding s' using iff by (simp add: sort_key_stable)
qed

theorem process_frame_witness:
  "process example_sf2 = (fst (process example_sf2), Inr example_banks)
   \<and> pbag (fst (process example_sf2)) = pbag example_sf2
   \<and> map preset_name (records (phdr (fst (process example_sf2)))) = [ascii ''A'', ascii ''B'']
   \<and> mset (records (phdr (fst (process example_sf2)))) = mset (records (phdr example_sf2))"
proof -
  have p: "process example_sf2 = (fst (process example_sf2), Inr example_banks)"
    using process_example by (simp add: prod_eq_iff)
  note T = process_frame [OF p]
  have "map preset_name (sort_key bank (records (phdr example_sf2))) = [ascii ''A'', ascii ''B'']"
    by code_simp
  with p T show ?thesis by simp
qed

text \<open>
  The claim as stated is false: with the preset headers of bank 1 before those of bank 0,
  the array of preset headers is in another order after \<open>process\<close>.
\<close>

theorem process_frame_counterexample:
  "map bank (records (phdr example_sf2)) = [1, 0]
   \<and> map bank (records (phdr (fst (process example_sf2)))) = [0, 1]
   \<and> records (phdr (fst (process example_sf2))) \<noteq> records (phdr example_sf2)"
  by code_simp

section \<open>The metadata decoder\<close>

subsection \<open>The version sub-chunks\<close>

lemma header_ints_2:
  "length bs = 8 \<Longrightarrow> header_ints 2 bs = Inr [le_uint (take 4 bs), le_uint (take 4 (drop 4 bs))]"
proof -
  have "[0..<2] = [0, 1 :: nat]" by code_simp
  moreover assume "length bs = 8"
  ultimately show ?thesis by (simp add: header_ints_def)
qed

lemma chunk_id_ifil: "chunk_id ''ifil'' = Inr 0x6c696669"
  by code_simp

lemma chunk_id_iver: "chunk_id ''iver'' = Inr 0x72657669"
  by code_simp

lemma version_at:
  assumes id: "id_str = ''ifil'' \<or> id_str = ''iver''"
    and n: "chunk_id id_str = Inr n"
    and hdr: "take 8 (drop cp data) = tag @ [4, 0, 0, 0]" "length tag = 4" "le_uint tag = n"
    and v: "take 4 (drop (cp + 8) data) = [b0, b1, b2, b3]"
  shows "parse_sub_chunk data cp id_str =
     Inr (Some (ascii (str_int (push_bit 8 (uint b1) + uint b0) @ ''.''
                       @ str_int (push_bit 8 (uint b3) + uint b2)), 12))"
proof -
  have h: "header_ints 2 (take 8 (drop cp data)) = Inr [n, 4]"
    using hdr by (simp add: header_ints_2)
  have idm: "id_str \<in> set [''ifil'', ''iver'']" using id by auto
  let ?v = "take (nat 4) (drop (cp + 8) data)"
  have v': "?v = [b0, b1, b2, b3]" using v by simp
  have p: "py_index ?v 1 = Inr b1" "py_index ?v 0 = Inr b0"
    "py_index ?v 3 = Inr b3" "py_index ?v 2 = Inr b2"
    unfolding v' by (simp_all add: py_index_def)
  show ?thesis
    unfolding parse_sub_chunk_def h
    using n idm p by (simp add: Let_def del: set_simps)
qed

text \<open>
  Claim C8. A version sub-chunk (\<open>ifil\<close> or \<open>iver\<close>) of four bytes \<open>b0, b1, b2, b3\<close>, at
  any position of the data, is rendered as \<open>"<major>.<minor>"\<close> with
  \<open>major = (b1 << 8) + b0\<close> and \<open>minor = (b3 << 8) + b2\<close>; the bytes \<open>2, 1, 0, 0\<close> give
  \<open>"258.0"\<close>.
\<close>

theorem version_string:
  "parse_sub_chunk (pre @ [0x69, 0x66, 0x69, 0x6c, 4, 0, 0, 0, b0, b1, b2, b3] @ post)
       (length pre) ''ifil''
     = Inr (Some (ascii (str_int (push_bit 8 (uint b1) + uint b0) @ ''.''
                         @ str_int (push_bit 8 (uint b3) + uint b2)), 12))
   \<and> parse_sub_chunk (pre @ [0x69, 0x76, 0x65, 0x72, 4, 0, 0, 0, b0, b1, b2, b3] @ post)
       (length pre) ''iver''
     = Inr (Some (ascii (str_int (push_bit 8 (uint b1) + uint b0) @ ''.''
                         @ str_int (push_bit 8 (uint b3) + uint b2)), 12))
   \<and> parse_sub_chunk [0x69, 0x66, 0x69, 0x6c, 4, 0, 0, 0, 2, 1, 0, 0] 0 ''ifil''
     = Inr (Some (ascii ''258.0'', 12))"
proof (intro conjI)
  show "parse_sub_chunk (pre @ [0x69, 0x66, 0x69, 0x6c, 4, 0, 0, 0, b0, b1, b2, b3] @ post)
       (length pre) ''ifil''
     = Inr (Some (ascii (str_int (push_bit 8 (uint b1) + uint b0) @ ''.''
                         @ str_int (push_bit 8 (uint b3) + uint b2)), 12))"
    by (rule version_at [where tag = "[0x69, 0x66, 0x69, 0x6c]"])
      (simp_all add: chunk_id_ifil)
  show "parse_sub_chunk (pre @ [0x69, 0x76, 0x65, 0x72, 4, 0, 0, 0, b0, b1, b2, b3] @ post)
       (length pre) ''iver''
     = Inr (Some (ascii (str_int (push_bit 8 (uint b1) + uint b0) @ ''.''
                         @ str_int (push_bit 8 (uint b3) + uint b2)), 12))"
    by (rule version_at [where tag = "[0x69, 0x76, 0x65, 0x72]"])
      (simp_all add: chunk_id_iver)
  have s: "str_int (push_bit 8 (uint (1 :: byte)) + uint (2 :: byte)) @ ''.''
      @ str_int (push_bit 8 (uint (0 :: byte)) + uint (0 :: byte)) = ''258.0''"
    by code_simp
  have "parse_sub_chunk ([] @ [0x69, 0x66, 0x69, 0x6c, 4, 0, 0, 0, 2, 1, 0, 0] @ []) (length ([] :: byte list)) ''ifil''
     = Inr (Some (ascii (str_int (push_bit 8 (uint (1 :: byte)) + uint (2 :: byte)) @ ''.''
                         @ str_int (push_bit 8 (uint (0 :: byte)) + uint (0 :: byte))), 12))"
    by (rule version_at [where tag = "[0x69, 0x66, 0x69, 0x6c]"])
      (simp_all add: chunk_id_ifil)
  then show "parse_sub_chunk [0x69, 0x66, 0x69, 0x6c, 4, 0, 0, 0, 2, 1, 0, 0] 0 ''ifil''
     = Inr (Some (ascii ''258.0'', 12))"
    by (simp only: s) simp
qed

theorem version_string_witness:
  "parse_sub_chunk [7, 7, 0x69, 0x76, 0x65, 0x72, 4, 0, 0, 0, 4, 0, 10, 1, 9] 2 ''iver''
     = Inr (Some (ascii ''4.266'', 12))"
proof -
  have s: "str_int (push_bit 8 (uint (0 :: byte)) + uint (4 :: byte)) @ ''.''
      @ str_int (push_bit 8 (uint (1 :: byte)) + uint (10 :: byte)) = ''4.266''"
    by code_simp
  from version_string [of "[7, 7]" 4 0 10 1 "[9]", THEN conjunct2, THEN conjunct1]
  show ?thesis by (simp only: s) (simp add: numeral_2_eq_2)
qed

subsection \<open>A missing mandatory sub-chunk\<close>

text \<open>
  Claim C5, at a file without the version sub-chunk. \<open>parse_info_list_chunk\<close> prints the
  message that names the sub-chunk and returns \<open>None\<close>; \<open>parse_file\<close> goes on, reads the
  nine chunks and returns them with \<open>None\<close> as the metadata, and \<open>process\<close> runs on them:
  the parse is not aborted. With the form type overwritten the same file ends in
  \<open>sys.exit(1)\<close>, as every mismatch of an identifier does.
\<close>

theorem parse_file_missing_version:
  "parse_info_list_chunk (take 1024 missing_version_file) 24
     = Inr ([''File does not have have RIFF format. Version sub-chunk is not present''], None)
   \<and> (case parse_file missing_version_file of
         Inl e \<Rightarrow> False
       | Inr (out, info, s) \<Rightarrow>
           out = [''File does not have have RIFF format. Version sub-chunk is not present'']
           \<and> info = None
           \<and> records (phdr s) = [] \<and> records (pbag s) = [] \<and> records (pmod s) = []
           \<and> records (pgen s) = [] \<and> records (inst s) = [] \<and> records (ibag s) = []
           \<and> records (imod s) = [] \<and> records (igen s) = [] \<and> records (shdr s) = [])
   \<and> (case parse_file missing_version_file of
         Inl e \<Rightarrow> False
       | Inr (out, info, s) \<Rightarrow> snd (process s) = Inr [])
   \<and> (case parse_file (missing_version_file[8 := 0]) of
         Inl e \<Rightarrow> e = SystemExit
       | Inr x \<Rightarrow> False)"
  by code_simp

subsection \<open>Text\<close>

lemma utf8_ascii: "\<forall>b \<in> set bs. b < 0x80 \<Longrightarrow> utf8_decode bs = Inr (map unat bs)"
  by (induction bs rule: utf8_decode.induct) simp_all

lemma takeWhile_zero:
  "takeWhile (\<lambda>c. c = (0::nat)) xs = replicate (length (takeWhile (\<lambda>c. c = 0) xs)) 0"
  by (induction xs) auto

lemma strip0_decomp:
  "\<exists>j k. t = replicate j 0 @ strip0 t @ replicate k 0"
proof -
  let ?z = "\<lambda>c. c = (0::nat)"
  let ?u = "dropWhile ?z t"
  have "t = takeWhile ?z t @ ?u" by simp
  moreover have "?u = strip0 t @ rev (takeWhile ?z (rev ?u))"
  proof -
    have "rev (dropWhile ?z (rev ?u)) @ rev (takeWhile ?z (rev ?u))
        = rev (takeWhile ?z (rev ?u) @ dropWhile ?z (rev ?u))"
      by (simp only: rev_append)
    also have "\<dots> = rev (rev ?u)" by (simp only: takeWhile_dropWhile_id)
    also have "\<dots> = ?u" by simp
    finally show ?thesis by (simp only: strip0_def)
  qed
  ultimately have "t = takeWhile ?z t @ strip0 t @ rev (takeWhile ?z (rev ?u))" by simp
  then have "t = replicate (length (takeWhile ?z t)) 0 @ strip0 t
      @ replicate (length (takeWhile ?z (rev ?u))) 0"
    using takeWhile_zero [of t] takeWhile_zero [of "rev ?u"] by (metis rev_replicate)
  then show ?thesis by blast
qed

lemma strip0_ends: "strip0 t = [] \<or> (hd (strip0 t) \<noteq> 0 \<and> last (strip0 t) \<noteq> 0)"
proof (cases "strip0 t = []")
  case True
  then show ?thesis by simp
next
  case False
  let ?z = "\<lambda>c. c = (0::nat)"
  let ?u = "dropWhile ?z t"
  let ?w = "dropWhile ?z (rev ?u)"
  from False have w: "?w \<noteq> []" by (simp add: strip0_def)
  have u: "?u \<noteq> []"
  proof
    assume "?u = []"
    then have "?w = []" by (simp only: rev.simps dropWhile.simps)
    with w show False ..
  qed
  have "last (strip0 t) = hd ?w" using w by (simp add: strip0_def last_rev)
  moreover have "hd ?w \<noteq> 0" using hd_dropWhile [OF w] by simp
  moreover have "hd (strip0 t) = last ?w" using w by (simp add: strip0_def hd_rev)
  moreover have "last ?w = last (rev ?u)"
    using w by (metis append_is_Nil_conv last_appendR takeWhile_dropWhile_id)
  moreover have "last (rev ?u) = hd ?u" using u by (simp add: last_rev)
  moreover have "hd ?u \<noteq> 0" using hd_dropWhile [OF u] by simp
  ultimately show ?thesis by simp
qed

lemma strip0_snoc_zero: "strip0 (xs @ [0]) = strip0 xs"
proof (cases "\<forall>x \<in> set xs. x = 0")
  case True
  then have a: "dropWhile (\<lambda>c. c = 0) (xs @ [0]) = []"
    and b: "dropWhile (\<lambda>c. c = 0) xs = []"
    by (induction xs) auto
  show ?thesis unfolding strip0_def a b ..
next
  case False
  then have "dropWhile (\<lambda>c. c = 0) (xs @ [0]) = dropWhile (\<lambda>c. c = 0) xs @ [0]"
    by (auto simp: dropWhile_append)
  then show ?thesis by (simp add: strip0_def)
qed

lemma upto_upt: "[int a..int b - 1] = map int [a..<b]"
proof (induction b)
  case 0
  then show ?case by simp
next
  case (Suc b)
  show ?case
  proof (cases "a \<le> b")
    case True
    then have "[int a..int (Suc b) - 1] = [int a..int b - 1] @ [int b]"
      using upto_rec2 [of "int a" "int b"] by simp
    with Suc True show ?thesis by simp
  next
    case False
    then show ?thesis by simp
  qed
qed

lemma text_loop_range:
  "b \<le> length data \<Longrightarrow>
     text_loop data (map int [a..<b]) acc = Inr (acc @ map unat (take (b - a) (drop a data)))"
proof (induction "b - a" arbitrary: a acc)
  case 0
  then show ?case by simp
next
  case (Suc n)
  then have lt: "a < b" and n: "n = b - Suc a" by auto
  with Suc.prems have al: "a < length data" by simp
  have l: "[a..<b] = a # [Suc a..<b]" using lt by (rule upt_conv_Cons)
  have p: "py_index data (int a) = Inr (data ! a)" using al by (simp add: py_index_def)
  have t: "take (b - a) (drop a data) = data ! a # take (b - Suc a) (drop (Suc a) data)"
    using lt al by (metis Cons_nth_drop_Suc Suc.hyps(2) n take_Suc_Cons)
  from Suc.hyps(1) [OF n Suc.prems, of "acc @ [unat (data ! a)]"]
  show ?case by (simp add: l p t)
qed

lemma text_at:
  assumes id: "id_str \<noteq> ''ifil''" "id_str \<noteq> ''iver''"
    and n: "chunk_id id_str = Inr n"
    and hdr: "header_ints 2 (take 8 (drop cp data)) = Inr [n, int S]"
    and len: "cp + 8 + S \<le> length data"
    and nul: "S = 0 \<or> data ! (cp + 8 + S - 1) = 0"
  shows "parse_sub_chunk data cp id_str =
     Inr (Some (strip0 (map unat (take S (drop (cp + 8) data))), S + 8))"
proof -
  have r: "py_range (int cp + 8) (int cp + int S + 7) = map int [cp + 8..<cp + S + 7]"
    using upto_upt [of "cp + 8" "cp + S + 7"] by (simp add: py_range_def)
  have "cp + S + 7 \<le> length data" using len by simp
  from text_loop_range [OF this, of "cp + 8" "[]"]
  have loop: "text_loop data (py_range (int cp + 8) (int cp + int S + 7)) []
      = Inr (map unat (take (S - 1) (drop (cp + 8) data)))"
    by (simp add: r)
  have s: "strip0 (map unat (take (S - 1) (drop (cp + 8) data)))
      = strip0 (map unat (take S (drop (cp + 8) data)))"
  proof (cases "S = 0")
    case True
    then show ?thesis by simp
  next
    case False
    with nul have z: "data ! (cp + 8 + S - 1) = 0" by simp
    from False obtain k where k: "S = Suc k" by (cases S) auto
    have "k < length (drop (cp + 8) data)" using len k by simp
    then have "take (Suc k) (drop (cp + 8) data)
        = take k (drop (cp + 8) data) @ [drop (cp + 8) data ! k]"
      by (rule take_Suc_conv_app_nth)
    moreover have "drop (cp + 8) data ! k = 0" using z k len by (simp add: ac_simps)
    ultimately show ?thesis using k by (simp add: strip0_snoc_zero)
  qed
  have nid: "id_str \<notin> set [''ifil'', ''iver'']" using id by simp
  show ?thesis
    unfolding parse_sub_chunk_def hdr
    using n nid loop s by (simp add: Let_def del: set_simps)
qed

lemma PHDR_name:
  "utf8_decode (take 20 bs) = Inr s \<Longrightarrow>
     \<exists>r. init PHDR (unpack_fields (format PHDR) bs) = Inr r \<and> preset_name r = strip0 s"
  by (simp add: PHDR_def)

lemma INST_name:
  "utf8_decode (take 20 bs) = Inr s \<Longrightarrow>
     \<exists>r. init INST (unpack_fields (format INST) bs) = Inr r \<and> inst_name r = strip0 s"
  by (simp add: INST_def)

lemma SHDR_name:
  "utf8_decode (take 20 bs) = Inr s \<Longrightarrow>
     \<exists>r. init SHDR (unpack_fields (format SHDR) bs) = Inr r \<and> sample_name r = strip0 s"
  by (simp add: SHDR_def)

lemma chunk_id_INAM: "chunk_id ''INAM'' = Inr 0x4d414e49"
  by code_simp

text \<open>
  Claim C9, as amended. The name of a preset, an instrument or a sample is the UTF-8
  decoding of the 20 bytes of the field, which for ASCII bytes is the bytes themselves,
  with the null characters removed at both ends. The text of a metadata sub-chunk of
  declared size \<open>S\<close>, all of it inside the data and ending in a null byte or empty, is its
  \<open>S\<close> content bytes with the null characters removed at both ends. In both, what is
  removed is a run of null characters in front and one at the back, and what is left
  neither starts nor ends with a null character.
\<close>

theorem text_fields:
  "(utf8_decode (take 20 bs) = Inr s \<longrightarrow>
      (\<exists>r. init PHDR (unpack_fields (format PHDR) bs) = Inr r \<and> preset_name r = strip0 s)
      \<and> (\<exists>r. init INST (unpack_fields (format INST) bs) = Inr r \<and> inst_name r = strip0 s)
      \<and> (\<exists>r. init SHDR (unpack_fields (format SHDR) bs) = Inr r \<and> sample_name r = strip0 s))
   \<and> ((\<forall>b \<in> set (take 20 bs). b < 0x80) \<longrightarrow>
        utf8_decode (take 20 bs) = Inr (map unat (take 20 bs)))
   \<and> (id_str \<noteq> ''ifil'' \<and> id_str \<noteq> ''iver'' \<and> chunk_id id_str = Inr n
        \<and> header_ints 2 (take 8 (drop cp data)) = Inr [n, int S]
        \<and> cp + 8 + S \<le> length data \<and> (S = 0 \<or> data ! (cp + 8 + S - 1) = 0) \<longrightarrow>
        parse_sub_chunk data cp id_str =
          Inr (Some (strip0 (map unat (take S (drop (cp + 8) data))), S + 8)))
   \<and> (\<exists>j k. t = replicate j 0 @ strip0 t @ replicate k 0)
   \<and> (strip0 t = [] \<or> (hd (strip0 t) \<noteq> 0 \<and> last (strip0 t) \<noteq> 0))"
  using PHDR_name [of bs s] INST_name [of bs s] SHDR_name [of bs s] utf8_ascii [of "take 20 bs"]
    text_at [of id_str n cp data S] strip0_decomp [of t] strip0_ends [of t]
  by blast

theorem text_fields_witness:
  "(\<exists>r. init INST (unpack_fields (format INST) ([0, 80, 0, 66] @ replicate 16 0 @ [7, 0])) = Inr r
        \<and> inst_name r = [80, 0, 66])
   \<and> parse_sub_chunk [0x49, 0x4e, 0x41, 0x4d, 4, 0, 0, 0, 0, 66, 0, 0] 0 ''INAM''
       = Inr (Some ([66], 12))"
proof -
  let ?bs = "[0, 80, 0, 66] @ replicate 16 0 @ [7, 0 :: byte]"
  let ?d = "[0x49, 0x4e, 0x41, 0x4d, 4, 0, 0, 0, 0, 66, 0, 0 :: byte]"
  note T = text_fields [of ?bs "map unat (take 20 ?bs)" "''INAM''" "0x4d414e49" 0 ?d 4 "[]"]
  have a: "\<forall>b \<in> set (take 20 ?bs). b < 0x80" by code_simp
  from T a have u: "utf8_decode (take 20 ?bs) = Inr (map unat (take 20 ?bs))" by blast
  with T have "\<exists>r. init INST (unpack_fields (format INST) ?bs) = Inr r
      \<and> inst_name r = strip0 (map unat (take 20 ?bs))"
    by blast
  moreover have "strip0 (map unat (take 20 ?bs)) = [80, 0, 66]" by code_simp
  ultimately have names: "\<exists>r. init INST (unpack_fields (format INST) ?bs) = Inr r
      \<and> inst_name r = [80, 0, 66]"
    by simp
  have h: "''INAM'' \<noteq> ''ifil'' \<and> ''INAM'' \<noteq> ''iver'' \<and> chunk_id ''INAM'' = Inr 0x4d414e49
        \<and> header_ints 2 (take 8 (drop 0 ?d)) = Inr [0x4d414e49, int 4]
        \<and> 0 + 8 + 4 \<le> length ?d \<and> ((4::nat) = 0 \<or> ?d ! (0 + 8 + 4 - 1) = 0)"
    by code_simp
  with T have "parse_sub_chunk ?d 0 ''INAM''
      = Inr (Some (strip0 (map unat (take 4 (drop (0 + 8) ?d))), 4 + 8))"
    by blast
  moreover have "strip0 (map unat (take 4 (drop (0 + 8) ?d))) = [66]" by code_simp
  ultimately have "parse_sub_chunk ?d 0 ''INAM'' = Inr (Some ([66], 12))" by simp
  with names show ?thesis by blast
qed

text \<open>
  The claim as stated is false. A leading null byte of a name or of a metadata text is
  removed too; a name that is not ASCII is decoded, to other characters than its bytes or
  to an exception; and the last content byte of a metadata text is not read.
\<close>

theorem text_fields_counterexample:
  "init INST (unpack_fields (format INST) ([0, 65] @ replicate 18 0 @ [7, 0]))
     = Inr \<lparr>inst_name = [65], inst_bag_ndx = 7\<rparr>
   \<and> rstrip0 (map unat ([0, 65] @ replicate 18 (0 :: byte))) = [0, 65]
   \<and> init INST (unpack_fields (format INST) ([0xC3, 0xA9] @ replicate 18 0 @ [7, 0]))
     = Inr \<lparr>inst_name = [233], inst_bag_ndx = 7\<rparr>
   \<and> rstrip0 (map unat ([0xC3, 0xA9] @ replicate 18 (0 :: byte))) = [195, 169]
   \<and> init INST (unpack_fields (format INST) ([0xFF] @ replicate 19 0 @ [7, 0]))
     = Inl UnicodeDecodeError
   \<and> parse_sub_chunk [0x49, 0x4e, 0x41, 0x4d, 4, 0, 0, 0, 0, 66, 0, 0] 0 ''INAM''
     = Inr (Some ([66], 12))
   \<and> rstrip0 (map unat [0, 66, 0, 0 :: byte]) = [0, 66]
   \<and> parse_sub_chunk [0x49, 0x4e, 0x41, 0x4d, 4, 0, 0, 0, 65, 66, 67, 68] 0 ''INAM''
     = Inr (Some ([65, 66, 67], 12))
   \<and> rstrip0 (map unat [65, 66, 67, 68 :: byte]) = [65, 66, 67, 68]"
  by code_simp

end
